(* ===== verification/Dstack_Prelude.thy ===== *)
theory Dstack_Prelude
  imports Main "HOL-Library.Word" "HOL-Library.Char_ord" "HOL-Library.List_Lexorder"
    "HOL-Library.Code_Target_Nat" "HOL-Library.Sublist"
begin

text \<open>
  Shared vocabulary of the development: the result type of fallible Rust code, bytes,
  saturating arithmetic, the ordered map and ordered set of the Rust standard library
  (\<^verbatim>\<open>BTreeMap\<close>, \<^verbatim>\<open>BTreeSet\<close>) as key-sorted lists, and the contract of the ordered
  map as a locale interpreted on them.  The generic lemmas are collected in the
  \<open>named_theorems\<close> declared here so that component proofs can refer to them by group.
\<close>

named_theorems bt_simps \<open>lookup, domain and well-formedness laws of the ordered map\<close>
named_theorems bs_simps \<open>membership and well-formedness laws of the ordered set\<close>
named_theorems res_simps \<open>laws of the result type\<close>

section \<open>Results\<close>

type_synonym 'a res = "string + 'a"

definition ensure :: "bool \<Rightarrow> 'e \<Rightarrow> ('e + unit)" where
  "ensure b e = (if b then Inr () else Inl e)"

fun rbind :: "('e + 'a) \<Rightarrow> ('a \<Rightarrow> ('e + 'b)) \<Rightarrow> ('e + 'b)" where
  "rbind (Inl e) f = Inl e"
| "rbind (Inr x) f = f x"

fun ok_or :: "'e \<Rightarrow> 'a option \<Rightarrow> ('e + 'a)" where
  "ok_or e None = Inl e"
| "ok_or e (Some x) = Inr x"

fun rmap :: "('e + 'a) list \<Rightarrow> ('e + 'a list)" where
  "rmap [] = Inr []"
| "rmap (x # xs) = rbind x (\<lambda>y. rbind (rmap xs) (\<lambda>ys. Inr (y # ys)))"

abbreviation is_ok :: "('e + 'a) \<Rightarrow> bool" where
  "is_ok r \<equiv> Sum_Type.isl r = False"

lemma rbind_eq_Inr [res_simps]:
  "rbind r f = Inr y \<longleftrightarrow> (\<exists>x. r = Inr x \<and> f x = Inr y)"
  by (cases r) auto

lemma rbind_eq_Inl [res_simps]:
  "rbind r f = Inl e \<longleftrightarrow> r = Inl e \<or> (\<exists>x. r = Inr x \<and> f x = Inl e)"
  by (cases r) auto

lemma ensure_eq_Inr [res_simps]: "ensure b e = Inr u \<longleftrightarrow> b"
  by (simp add: ensure_def)

lemma ensure_eq_Inl [res_simps]: "ensure b e = Inl e' \<longleftrightarrow> \<not> b \<and> e' = e"
  by (auto simp: ensure_def)

lemma ok_or_eq_Inr [res_simps]: "ok_or e x = Inr y \<longleftrightarrow> x = Some y"
  by (cases x) auto

lemma ok_or_eq_Inl [res_simps]: "ok_or e x = Inl e' \<longleftrightarrow> x = None \<and> e' = e"
  by (cases x) auto

lemma rbind_assoc: "rbind (rbind r f) g = rbind r (\<lambda>x. rbind (f x) g)"
  by (cases r) auto

section \<open>Bytes and machine integers\<close>

type_synonym byte = "8 word"
type_synonym bytes = "byte list"

definition str_bytes :: "string \<Rightarrow> bytes" where
  "str_bytes s = map of_char s"

lemma length_str_bytes [simp]: "length (str_bytes s) = length s"
  by (simp add: str_bytes_def)

lemma of_char_byte_inj: "of_char c = (of_char d :: byte) \<longleftrightarrow> c = d"
proof
  assume "of_char c = (of_char d :: byte)"
  then have "unat (of_nat (of_char c) :: byte) = unat (of_nat (of_char d) :: byte)"
    by (simp only: of_nat_of_char)
  then have "(of_char c :: nat) mod 256 = of_char d mod 256"
    by (simp add: unat_of_nat)
  then show "c = d"
    by simp
qed simp

lemma str_bytes_inj [simp]: "str_bytes s = str_bytes t \<longleftrightarrow> s = t"
  unfolding str_bytes_def
  by (rule inj_eq) (rule inj_mapI, rule injI, simp add: of_char_byte_inj)

definition sat_add :: "nat \<Rightarrow> nat \<Rightarrow> nat \<Rightarrow> nat" where
  "sat_add w a b = min (a + b) (2 ^ w - 1)"

lemma sat_add_bound: "sat_add w a b < 2 ^ w"
proof -
  have "2 ^ w - 1 < (2 ^ w :: nat)" by simp
  then show ?thesis unfolding sat_add_def by (rule min.strict_coboundedI2)
qed

definition checked_add :: "nat \<Rightarrow> nat \<Rightarrow> nat \<Rightarrow> nat option" where
  "checked_add w a b = (if a + b < 2 ^ w then Some (a + b) else None)"

definition checked_mul :: "nat \<Rightarrow> nat \<Rightarrow> nat \<Rightarrow> nat option" where
  "checked_mul w a b = (if a * b < 2 ^ w then Some (a * b) else None)"

text \<open>\<^verbatim>\<open>slice.get(i)\<close> and \<^verbatim>\<open>slice.get(a..b)\<close>: indexing that answers \<open>None\<close> out of range.\<close>

definition get_index :: "'a list \<Rightarrow> nat \<Rightarrow> 'a option" where
  "get_index xs i = (if i < length xs then Some (xs ! i) else None)"

definition get_range :: "'a list \<Rightarrow> nat \<Rightarrow> nat \<Rightarrow> 'a list option" where
  "get_range xs a b = (if a \<le> b \<and> b \<le> length xs then Some (take (b - a) (drop a xs)) else None)"

lemma get_range_0 [simp]: "get_range xs 0 n = (if n \<le> length xs then Some (take n xs) else None)"
  by (simp add: get_range_def)

lemma length_get_range: "get_range xs a b = Some ys \<Longrightarrow> length ys = b - a \<and> a \<le> b \<and> b \<le> length xs"
  by (auto simp: get_range_def split: if_splits)

lemma take_drop_split:
  assumes "a \<le> b" "b \<le> c"
  shows "take (c - a) (drop a xs) = take (b - a) (drop a xs) @ take (c - b) (drop b xs)"
proof -
  have "take ((b - a) + (c - b)) (drop a xs) =
      take (b - a) (drop a xs) @ take (c - b) (drop (b - a) (drop a xs))"
    by (rule take_add)
  then show ?thesis using assms by simp
qed

lemma byte_less [simp]: "unat (b :: byte) < 256"
  using unsigned_less [of b] by simp

text \<open>Big-endian integers.\<close>

definition be_nat :: "bytes \<Rightarrow> nat" where
  "be_nat bs = foldl (\<lambda>acc b. acc * 256 + unat b) 0 bs"

definition le_nat :: "bytes \<Rightarrow> nat" where
  "le_nat bs = be_nat (rev bs)"

fun nat_be :: "nat \<Rightarrow> nat \<Rightarrow> bytes" where
  "nat_be 0 n = []"
| "nat_be (Suc k) n = nat_be k (n div 256) @ [of_nat n]"

definition nat_le :: "nat \<Rightarrow> nat \<Rightarrow> bytes" where
  "nat_le k n = rev (nat_be k n)"

lemma be_nat_Nil [simp]: "be_nat [] = 0"
  by (simp add: be_nat_def)

lemma be_nat_snoc [simp]: "be_nat (bs @ [b]) = be_nat bs * 256 + unat b"
  by (simp add: be_nat_def)

lemma length_nat_be [simp]: "length (nat_be k n) = k"
  by (induction k n rule: nat_be.induct) auto

lemma length_nat_le [simp]: "length (nat_le k n) = k"
  by (simp add: nat_le_def)

lemma be_nat_nat_be: "n < 256 ^ k \<Longrightarrow> be_nat (nat_be k n) = n"
proof (induction k n rule: nat_be.induct)
  case (2 k n)
  then have "n div 256 < 256 ^ k"
    by (simp add: less_mult_imp_div_less)
  then show ?case
    using 2 by (simp add: unat_of_nat)
qed simp

lemma le_nat_nat_le: "n < 256 ^ k \<Longrightarrow> le_nat (nat_le k n) = n"
  by (simp add: le_nat_def nat_le_def be_nat_nat_be)

lemma be_nat_bound: "be_nat bs < 256 ^ length bs"
proof (induction bs rule: rev_induct)
  case (snoc b bs)
  have "be_nat bs * 256 + unat b < (be_nat bs + 1) * 256"
    using byte_less [of b] by simp
  also have "\<dots> \<le> 256 ^ length bs * 256"
    using snoc by simp
  finally show ?case
    by (simp add: mult.commute)
qed simp

lemma nat_be_be_nat: "nat_be (length bs) (be_nat bs) = bs"
proof (induction bs rule: rev_induct)
  case (snoc b bs)
  have "(be_nat bs * 256 + unat b) div 256 = be_nat bs"
    using byte_less [of b] by simp
  moreover have "(of_nat (be_nat bs * 256 + unat b) :: byte) = b"
  proof -
    have z: "(256 :: byte) = 0" by simp
    show ?thesis
      by (simp only: of_nat_add of_nat_mult of_nat_numeral z mult_zero_right add_0_left) simp
  qed
  ultimately show ?case
    using snoc by simp
qed simp

section \<open>Decimal numbers\<close>

text \<open>\<^verbatim>\<open>Display\<close> of an unsigned integer and \<^verbatim>\<open>str::parse\<close> at a given width.\<close>

definition digit_char :: "nat \<Rightarrow> char" where
  "digit_char d = char_of (48 + d)"

definition digit_val :: "char \<Rightarrow> nat option" where
  "digit_val c = (let n = of_char c :: nat in if 48 \<le> n \<and> n < 58 then Some (n - 48) else None)"

fun show_nat :: "nat \<Rightarrow> string" where
  "show_nat n = (if n < 10 then [digit_char n] else show_nat (n div 10) @ [digit_char (n mod 10)])"

declare show_nat.simps [simp del]

definition parse_digits :: "nat \<Rightarrow> string \<Rightarrow> nat option" where
  "parse_digits w ds =
    foldl (\<lambda>acc c. Option.bind acc (\<lambda>a. Option.bind (digit_val c) (\<lambda>d.
      Option.bind (checked_mul w a 10) (\<lambda>m. checked_add w m d)))) (Some 0) ds"

definition parse_uint :: "nat \<Rightarrow> string \<Rightarrow> nat option" where
  "parse_uint w s =
    (let ds = (case s of [] \<Rightarrow> [] | c # r \<Rightarrow> if c = CHR ''+'' then r else s)
     in if ds = [] then None else parse_digits w ds)"

lemma digit_val_char [simp]: "d < 10 \<Longrightarrow> digit_val (digit_char d) = Some d"
  by (simp add: digit_val_def digit_char_def)

lemma digit_char_ne: "d < 10 \<Longrightarrow> digit_val c = None \<Longrightarrow> digit_char d \<noteq> c"
  by auto

lemma show_nat_nonempty [simp]: "show_nat n \<noteq> []"
  by (subst show_nat.simps) simp

lemma parse_digits_show: "n < 2 ^ w \<Longrightarrow> (10 :: nat) < 2 ^ w \<Longrightarrow> parse_digits w (show_nat n) = Some n"
proof (induction n rule: show_nat.induct)
  case (1 n)
  show ?case
  proof (cases "n < 10")
    case True
    then show ?thesis
      using 1 by (subst show_nat.simps) (simp add: parse_digits_def checked_mul_def checked_add_def)
  next
    case False
    have "n div 10 < 2 ^ w" using 1 by (meson div_le_dividend le_less_trans)
    then have "parse_digits w (show_nat (n div 10)) = Some (n div 10)" using 1 False by simp
    moreover have "n div 10 * 10 < 2 ^ w" using 1 by (meson div_times_less_eq_dividend le_less_trans)
    ultimately show ?thesis
      using 1 False by (subst show_nat.simps) (simp add: parse_digits_def checked_mul_def checked_add_def)
  qed
qed

lemma show_nat_digits: "c \<in> set (show_nat n) \<Longrightarrow> digit_val c \<noteq> None"
proof (induction n rule: show_nat.induct)
  case (1 n)
  then show ?case
    by (subst (asm) (2) show_nat.simps) (auto split: if_splits)
qed

lemma parse_uint_show:
  assumes "n < 2 ^ w" "(10 :: nat) < 2 ^ w"
  shows "parse_uint w (show_nat n) = Some n"
proof -
  obtain c r where s: "show_nat n = c # r" by (cases "show_nat n") auto
  have "c \<noteq> CHR ''+''"
    using show_nat_digits [of c n] s by (auto simp: digit_val_def)
  then show ?thesis
    using parse_digits_show [OF assms] s by (simp add: parse_uint_def)
qed

lemma show_nat_inj: "show_nat m = show_nat n \<longleftrightarrow> m = n"
proof
  assume e: "show_nat m = show_nat n"
  define w where "w = max m n + 4"
  have "m < 2 ^ w" "n < 2 ^ w"
    by (rule le_less_trans [OF _ less_exp], simp add: w_def)+
  moreover have "(2::nat) ^ 4 \<le> 2 ^ w" by (rule power_increasing) (simp_all add: w_def)
  then have "(10 :: nat) < 2 ^ w" by (rule less_le_trans [rotated]) simp
  ultimately have "Some m = Some n"
    using parse_digits_show [of m w] parse_digits_show [of n w] unfolding e by (metis option.sel)
  then show "m = n" by simp
qed simp

text \<open>\<^verbatim>\<open>str::strip_prefix\<close> and \<^verbatim>\<open>str::ends_with\<close>.\<close>

fun strip_prefix :: "string \<Rightarrow> string \<Rightarrow> string option" where
  "strip_prefix [] s = Some s"
| "strip_prefix (p # ps) [] = None"
| "strip_prefix (p # ps) (c # s) = (if p = c then strip_prefix ps s else None)"

lemma strip_prefix_append [simp]: "strip_prefix p (p @ s) = Some s"
  by (induction p) auto

lemma strip_prefix_Some: "strip_prefix p s = Some r \<longleftrightarrow> s = p @ r"
  by (induction p s rule: strip_prefix.induct) auto

section \<open>Characters of a UTF-8 string\<close>

text \<open>
  Rust strings are UTF-8 byte sequences; \<open>string\<close> holds the bytes.  \<open>utf8_chars\<close> gives the
  code points that \<^verbatim>\<open>str::chars\<close> iterates over, and the two predicates are
  \<^verbatim>\<open>char::is_whitespace\<close> and \<^verbatim>\<open>char::is_control\<close>.
\<close>

function utf8_points :: "nat list \<Rightarrow> nat list" where
  "utf8_points [] = []"
| "utf8_points (b # bs) =
    (let n = (if b < 128 then 0 else if b < 224 then 1 else if b < 240 then 2 else 3);
         lead = (if n = 0 then b else b mod 2 ^ (6 - n))
     in foldl (\<lambda>a c. a * 64 + c mod 64) lead (take n bs) # utf8_points (drop n bs))"
  by pat_completeness auto
termination
  by (relation "measure length") auto

definition utf8_chars :: "string \<Rightarrow> nat list" where
  "utf8_chars s = utf8_points (map of_char s)"

definition char_is_whitespace :: "nat \<Rightarrow> bool" where
  "char_is_whitespace c =
    (9 \<le> c \<and> c \<le> 13 \<or> c = 32 \<or> c = 133 \<or> c = 160 \<or> c = 5760 \<or> 8192 \<le> c \<and> c \<le> 8202
      \<or> c = 8232 \<or> c = 8233 \<or> c = 8239 \<or> c = 8287 \<or> c = 12288)"

definition char_is_control :: "nat \<Rightarrow> bool" where
  "char_is_control c = (c < 32 \<or> 127 \<le> c \<and> c < 160)"

text \<open>\<^verbatim>\<open>str::from_utf8\<close>: the byte sequences that are well-formed UTF-8.\<close>

definition utf8_cont :: "nat \<Rightarrow> bool" where
  "utf8_cont b = (128 \<le> b \<and> b < 192)"

fun utf8_valid :: "nat list \<Rightarrow> bool" where
  "utf8_valid [] = True"
| "utf8_valid [a] = (a < 128)"
| "utf8_valid [a, b] =
    (if a < 128 then utf8_valid [b] else 194 \<le> a \<and> a < 224 \<and> utf8_cont b)"
| "utf8_valid [a, b, c] =
    (if a < 128 then utf8_valid [b, c]
     else if a < 224 then 194 \<le> a \<and> utf8_cont b \<and> utf8_valid [c]
     else a < 240 \<and> utf8_cont b \<and> utf8_cont c \<and> (a = 224 \<longrightarrow> 160 \<le> b) \<and> (a = 237 \<longrightarrow> b < 160))"
| "utf8_valid (a # b # c # d # r) =
    (if a < 128 then utf8_valid (b # c # d # r)
     else if a < 224 then 194 \<le> a \<and> utf8_cont b \<and> utf8_valid (c # d # r)
     else if a < 240 then utf8_cont b \<and> utf8_cont c \<and> (a = 224 \<longrightarrow> 160 \<le> b) \<and>
       (a = 237 \<longrightarrow> b < 160) \<and> utf8_valid (d # r)
     else a < 245 \<and> utf8_cont b \<and> utf8_cont c \<and> utf8_cont d \<and> (a = 240 \<longrightarrow> 144 \<le> b) \<and>
       (a = 244 \<longrightarrow> b < 144) \<and> utf8_valid r)"

definition str_from_utf8 :: "bytes \<Rightarrow> string option" where
  "str_from_utf8 bs = (if utf8_valid (map unat bs) then Some (map (\<lambda>b. char_of (unat b)) bs) else None)"

section \<open>Ordered maps\<close>

type_synonym ('k, 'v) btree_map = "('k \<times> 'v) list"

definition bt_wf :: "('k::linorder, 'v) btree_map \<Rightarrow> bool" where
  "bt_wf m = sorted_wrt (<) (map fst m)"

definition bt_get :: "('k, 'v) btree_map \<Rightarrow> 'k \<Rightarrow> 'v option" where
  "bt_get m k = map_of m k"

definition bt_contains :: "('k, 'v) btree_map \<Rightarrow> 'k \<Rightarrow> bool" where
  "bt_contains m k = (bt_get m k \<noteq> None)"

fun bt_insert :: "'k::linorder \<Rightarrow> 'v \<Rightarrow> ('k, 'v) btree_map \<Rightarrow> ('k, 'v) btree_map" where
  "bt_insert k v [] = [(k, v)]"
| "bt_insert k v ((k', v') # m) =
    (if k < k' then (k, v) # (k', v') # m
     else if k = k' then (k, v) # m
     else (k', v') # bt_insert k v m)"

definition bt_remove :: "'k \<Rightarrow> ('k, 'v) btree_map \<Rightarrow> ('k, 'v) btree_map" where
  "bt_remove k m = filter (\<lambda>(k', v). k' \<noteq> k) m"

definition bt_retain :: "('k \<Rightarrow> 'v \<Rightarrow> bool) \<Rightarrow> ('k, 'v) btree_map \<Rightarrow> ('k, 'v) btree_map" where
  "bt_retain p m = filter (\<lambda>(k, v). p k v) m"

definition bt_keys :: "('k, 'v) btree_map \<Rightarrow> 'k list" where
  "bt_keys m = map fst m"

definition bt_values :: "('k, 'v) btree_map \<Rightarrow> 'v list" where
  "bt_values m = map snd m"

definition bt_of_list :: "('k::linorder \<times> 'v) list \<Rightarrow> ('k, 'v) btree_map" where
  "bt_of_list xs = fold (\<lambda>(k, v) m. bt_insert k v m) xs []"

lemma bt_get_Nil [simp, bt_simps]: "bt_get [] k = None"
  by (simp add: bt_get_def)

lemma bt_get_insert [simp, bt_simps]:
  "bt_get (bt_insert k v m) k' = (if k' = k then Some v else bt_get m k')"
  by (induction k v m rule: bt_insert.induct) (auto simp: bt_get_def)

lemma bt_get_remove [simp, bt_simps]:
  "bt_get (bt_remove k m) k' = (if k' = k then None else bt_get m k')"
  by (induction m) (auto simp: bt_get_def bt_remove_def)

lemma bt_set_insert_subset: "set (bt_insert k v m) \<subseteq> insert (k, v) (set m)"
  by (induction k v m rule: bt_insert.induct) auto

lemma bt_keys_insert [simp]: "fst ` set (bt_insert k v m) = insert k (fst ` set m)"
  by (induction k v m rule: bt_insert.induct) auto

lemma bt_wf_Nil [simp, intro]: "bt_wf []"
  by (simp add: bt_wf_def)

lemma bt_wf_insert [simp, intro]: "bt_wf m \<Longrightarrow> bt_wf (bt_insert k v m)"
  by (induction k v m rule: bt_insert.induct) (auto simp: bt_wf_def)

lemma bt_wf_filter: "bt_wf m \<Longrightarrow> bt_wf (filter P m)"
  by (induction m) (auto simp: bt_wf_def)

lemma bt_wf_remove [simp, intro]: "bt_wf m \<Longrightarrow> bt_wf (bt_remove k m)"
  unfolding bt_remove_def by (rule bt_wf_filter)

lemma bt_wf_retain [simp, intro]: "bt_wf m \<Longrightarrow> bt_wf (bt_retain p m)"
  unfolding bt_retain_def by (rule bt_wf_filter)

lemma bt_wf_distinct: "bt_wf m \<Longrightarrow> distinct (map fst m)"
  by (simp add: bt_wf_def strict_sorted_iff)

lemma bt_get_in_set: "bt_get m k = Some v \<Longrightarrow> (k, v) \<in> set m"
  unfolding bt_get_def by (rule map_of_SomeD)

lemma bt_get_iff: "bt_wf m \<Longrightarrow> bt_get m k = Some v \<longleftrightarrow> (k, v) \<in> set m"
  unfolding bt_get_def by (simp add: bt_wf_distinct)

lemma bt_get_None_iff: "bt_get m k = None \<longleftrightarrow> k \<notin> fst ` set m"
  unfolding bt_get_def by (simp add: map_of_eq_None_iff)

lemma bt_get_retain:
  assumes "bt_wf m"
  shows "bt_get (bt_retain p m) k =
    (case bt_get m k of None \<Rightarrow> None | Some v \<Rightarrow> if p k v then Some v else None)"
proof (cases "bt_get (bt_retain p m) k")
  case None
  then show ?thesis
    using bt_get_iff [OF assms, of k]
    by (force simp: bt_get_None_iff bt_retain_def split: option.splits)
next
  case (Some v)
  then have "(k, v) \<in> set m \<and> p k v"
    using bt_get_in_set [OF Some] by (auto simp: bt_retain_def)
  then show ?thesis
    using Some bt_get_iff [OF assms, of k v] by simp
qed

lemma bt_insert_same:
  assumes "bt_wf m" "bt_wf n" "\<And>k. bt_get m k = bt_get n k"
  shows "m = n"
proof -
  have "set m = set n"
    using assms bt_get_iff by (metis (mono_tags) subrelI subset_antisym)
  moreover have "sorted (map fst m)" "sorted (map fst n)"
    "distinct (map fst m)" "distinct (map fst n)"
    using assms by (auto simp: bt_wf_def strict_sorted_iff)
  ultimately show ?thesis
    using map_sorted_distinct_set_unique [of fst m n]
    by (metis (no_types, lifting) distinct_map inf_sup_aci(5) sup.idem Un_absorb)
qed

lemma bt_of_list_wf_acc: "bt_wf m \<Longrightarrow> bt_wf (fold (\<lambda>(k, v) m. bt_insert k v m) xs m)"
  by (induction xs arbitrary: m) auto

lemma bt_wf_of_list [simp, intro]: "bt_wf (bt_of_list xs)"
  unfolding bt_of_list_def by (rule bt_of_list_wf_acc) simp

lemmas bt_wf_intros = bt_wf_Nil bt_wf_insert bt_wf_remove bt_wf_retain bt_wf_of_list

text \<open>
  The contract of an ordered map, as its clients use it, and the facts that follow
  from it alone.
\<close>

locale ordered_map =
  fixes empty :: 'm
    and insert :: "'k \<Rightarrow> 'v \<Rightarrow> 'm \<Rightarrow> 'm"
    and remove :: "'k \<Rightarrow> 'm \<Rightarrow> 'm"
    and lookup :: "'m \<Rightarrow> 'k \<Rightarrow> 'v option"
    and invar :: "'m \<Rightarrow> bool"
  assumes invar_empty: "invar empty"
    and invar_insert: "invar m \<Longrightarrow> invar (insert k v m)"
    and invar_remove: "invar m \<Longrightarrow> invar (remove k m)"
    and lookup_empty: "lookup empty k = None"
    and lookup_insert: "lookup (insert k v m) k' = (if k' = k then Some v else lookup m k')"
    and lookup_remove: "lookup (remove k m) k' = (if k' = k then None else lookup m k')"
    and extensional: "invar m \<Longrightarrow> invar n \<Longrightarrow> (\<And>k. lookup m k = lookup n k) \<Longrightarrow> m = n"
begin

lemma insert_commute:
  "invar m \<Longrightarrow> j \<noteq> k \<Longrightarrow> insert j u (insert k v m) = insert k v (insert j u m)"
  by (rule extensional) (auto simp: invar_insert lookup_insert)

lemma insert_overwrite: "invar m \<Longrightarrow> insert k u (insert k v m) = insert k u m"
  by (rule extensional) (auto simp: invar_insert lookup_insert)

lemma remove_insert_absent:
  "invar m \<Longrightarrow> lookup m k = None \<Longrightarrow> remove k (insert k v m) = m"
  by (rule extensional) (auto simp: invar_insert invar_remove lookup_insert lookup_remove)

lemma insert_present: "invar m \<Longrightarrow> lookup m k = Some v \<Longrightarrow> insert k v m = m"
  by (rule extensional) (auto simp: invar_insert lookup_insert)

lemma insert_remove: "invar m \<Longrightarrow> insert k v (remove k m) = insert k v m"
  by (rule extensional) (auto simp: invar_insert invar_remove lookup_insert lookup_remove)

lemma remove_absent: "invar m \<Longrightarrow> lookup m k = None \<Longrightarrow> remove k m = m"
  by (rule extensional) (auto simp: invar_remove lookup_remove)

end

interpretation btm: ordered_map "[]" bt_insert bt_remove bt_get bt_wf
  by unfold_locales (auto intro: bt_insert_same)

section \<open>Ordered sets\<close>

type_synonym 'a btree_set = "'a list"

definition bs_wf :: "'a::linorder btree_set \<Rightarrow> bool" where
  "bs_wf s = sorted_wrt (<) s"

fun bs_insert :: "'a::linorder \<Rightarrow> 'a btree_set \<Rightarrow> 'a btree_set" where
  "bs_insert x [] = [x]"
| "bs_insert x (y # s) =
    (if x < y then x # y # s else if x = y then y # s else y # bs_insert x s)"

definition bs_remove :: "'a \<Rightarrow> 'a btree_set \<Rightarrow> 'a btree_set" where
  "bs_remove x s = filter (\<lambda>y. y \<noteq> x) s"

definition bs_of_list :: "'a::linorder list \<Rightarrow> 'a btree_set" where
  "bs_of_list xs = fold bs_insert xs []"

lemma bs_set_insert [simp, bs_simps]: "set (bs_insert x s) = insert x (set s)"
  by (induction x s rule: bs_insert.induct) auto

lemma bs_set_remove [simp, bs_simps]: "set (bs_remove x s) = set s - {x}"
  by (auto simp: bs_remove_def)

lemma bs_wf_Nil [simp, intro]: "bs_wf []"
  by (simp add: bs_wf_def)

lemma bs_wf_insert [simp, intro]: "bs_wf s \<Longrightarrow> bs_wf (bs_insert x s)"
  by (induction x s rule: bs_insert.induct) (auto simp: bs_wf_def)

lemma bs_wf_remove [simp, intro]: "bs_wf s \<Longrightarrow> bs_wf (bs_remove x s)"
  unfolding bs_wf_def bs_remove_def by (rule sorted_wrt_filter)

lemma bs_insert_not_Nil [simp]: "bs_insert x s \<noteq> []"
  by (cases s) auto

lemma bs_insert_member: "bs_wf s \<Longrightarrow> x \<in> set s \<Longrightarrow> bs_insert x s = s"
  by (induction x s rule: bs_insert.induct) (auto simp: bs_wf_def)

lemma bs_wf_distinct: "bs_wf s \<Longrightarrow> distinct s"
  by (simp add: bs_wf_def strict_sorted_iff)

lemma bs_of_list_acc: "set (fold bs_insert xs s) = set xs \<union> set s"
  by (induction xs arbitrary: s) auto

lemma bs_set_of_list [simp, bs_simps]: "set (bs_of_list xs) = set xs"
  by (simp add: bs_of_list_def bs_of_list_acc)

end
