(* ===== verification/Gateway_Models.thy ===== *)
theory Gateway_Models
  imports Dstack_Prelude
begin

text \<open>
  The data of the gateway: port policies, the replicated \<^verbatim>\<open>InstanceRecord\<close>, the in-memory
  \<^verbatim>\<open>InstanceInfo\<close> with its health verdict, the routing inputs a cached selection depends on,
  the port-policy view, and the connection counter (\<^verbatim>\<open>gateway/src/models.rs\<close>,
  \<^verbatim>\<open>gateway/src/kv/mod.rs\<close>, \<^verbatim>\<open>gateway/src/time.rs\<close>).  A \<^verbatim>\<open>SystemTime\<close> is the integer number of
  nanoseconds since the Unix epoch; an \<^verbatim>\<open>Arc<AtomicU64>\<close> connection counter is the number of a
  cell in a counter store, so that two copies of a record share their counter as in the code.
\<close>

named_theorems gw_health \<open>facts about the health verdict of an instance\<close>

section \<open>Time\<close>

type_synonym system_time = int

definition nanos_per_sec :: int where
  "nanos_per_sec = 1000000000"

definition encode_ts :: "system_time \<Rightarrow> nat" where
  "encode_ts ts = (if ts < 0 then 0 else nat (ts div nanos_per_sec))"

definition decode_ts :: "nat \<Rightarrow> system_time" where
  "decode_ts ts = (if ts < 2 ^ 63 then int ts * nanos_per_sec else 0)"

text \<open>\<^verbatim>\<open>SystemTime::elapsed().unwrap_or_default()\<close>: a time in the future has age zero.\<close>

definition elapsed_or_zero :: "system_time \<Rightarrow> system_time \<Rightarrow> nat" where
  "elapsed_or_zero now ts = nat (now - ts)"

lemma encode_decode_ts: "ts < 2 ^ 63 \<Longrightarrow> encode_ts (decode_ts ts) = ts"
  by (simp add: encode_ts_def decode_ts_def nanos_per_sec_def)

lemma encode_ts_mono: "s \<le> t \<Longrightarrow> encode_ts s \<le> encode_ts t"
  by (auto simp: encode_ts_def nanos_per_sec_def intro!: nat_mono zdiv_mono1)

section \<open>Port policies\<close>

record PortFlags =
  pf_pp :: bool

record PortPolicy =
  pol_ports :: "(16 word, PortFlags) btree_map"
  pol_restrict_mode :: bool

record PortPolicyView =
  instance_reported :: "PortPolicy option"
  admin_override :: "PortPolicy option"

definition effective :: "PortPolicyView \<Rightarrow> PortPolicy option" where
  "effective v = (case admin_override v of Some p \<Rightarrow> Some p | None \<Rightarrow> instance_reported v)"

definition source_name :: "PortPolicyView \<Rightarrow> string" where
  "source_name v =
    (if admin_override v \<noteq> None then ''admin''
     else if instance_reported v \<noteq> None then ''instance''
     else ''none'')"

section \<open>Health\<close>

datatype HealthState = Unknown | Healthy | Unhealthy | Ungated

definition initial :: "bool \<Rightarrow> HealthState" where
  "initial health_check = (if health_check then Unknown else Ungated)"

fun state_is_healthy :: "HealthState \<Rightarrow> bool" where
  "state_is_healthy Healthy = True"
| "state_is_healthy Ungated = True"
| "state_is_healthy Unknown = False"
| "state_is_healthy Unhealthy = False"

fun health_as_str :: "HealthState \<Rightarrow> string" where
  "health_as_str Unknown = ''unknown''"
| "health_as_str Healthy = ''healthy''"
| "health_as_str Unhealthy = ''unhealthy''"
| "health_as_str Ungated = ''ungated''"

record Health =
  h_gated :: bool
  h_state :: HealthState

definition health_from :: "bool \<Rightarrow> Health" where
  "health_from gated = \<lparr> h_gated = gated, h_state = initial gated \<rparr>"

definition observe :: "HealthState \<Rightarrow> Health \<Rightarrow> Health" where
  "observe st h = h\<lparr> h_state := st \<rparr>"

definition forget :: "Health \<Rightarrow> Health" where
  "forget h = h\<lparr> h_state := initial (h_gated h) \<rparr>"

definition declare_health :: "bool \<Rightarrow> Health \<Rightarrow> Health" where
  "declare_health gated h = (if h_gated h \<noteq> gated then forget (h\<lparr> h_gated := gated \<rparr>) else h)"

text \<open>
  The consistency the type is designed for: an instance that never asked to be gated reads as
  \<open>Ungated\<close>, so it is never held out of rotation with nothing polling it.
\<close>

definition health_ok :: "Health \<Rightarrow> bool" where
  "health_ok h = (h_state h = Ungated \<longleftrightarrow> \<not> h_gated h)"

lemma health_ok_from [simp, gw_health]: "health_ok (health_from b)"
  by (simp add: health_ok_def health_from_def initial_def)

lemma health_ok_forget [simp, gw_health]: "health_ok (forget h)"
  by (simp add: health_ok_def forget_def initial_def)

lemma health_ok_declare [simp, gw_health]: "health_ok h \<Longrightarrow> health_ok (declare_health b h)"
  by (simp add: declare_health_def)

lemma declare_health_idem [simp]: "declare_health b (declare_health b h) = declare_health b h"
  by (simp add: declare_health_def forget_def)

lemma declare_health_same [simp]: "declare_health (h_gated h) h = h"
  by (simp add: declare_health_def)

lemma h_gated_declare [simp]: "h_gated (declare_health b h) = b"
  by (simp add: declare_health_def forget_def)

lemma h_gated_forget [simp]: "h_gated (forget h) = h_gated h"
  by (simp add: forget_def)

lemma ungated_is_healthy [gw_health]:
  "health_ok h \<Longrightarrow> \<not> h_gated h \<Longrightarrow> state_is_healthy (h_state h)"
  by (simp add: health_ok_def)

section \<open>Instances\<close>

type_synonym ipv4 = "32 word"
type_synonym counter_ref = nat

record InstanceInfo =
  ii_id :: string
  ii_app_id :: string
  ii_ip :: ipv4
  ii_public_key :: string
  ii_reg_time :: system_time
  ii_port_policy :: "PortPolicy option"
  ii_port_policy_hash :: string
  ii_admin_port_policy :: "PortPolicy option"
  ii_ready :: "bool option"
  ii_health :: Health
  ii_connections :: counter_ref

record ReportedCapabilities =
  rc_port_policy :: "PortPolicy option"
  rc_health_check :: "bool option"

definition reported_from :: "PortPolicy option \<Rightarrow> ReportedCapabilities" where
  "reported_from p = \<lparr> rc_port_policy = p, rc_health_check = None \<rparr>"

definition is_ready :: "InstanceInfo \<Rightarrow> bool" where
  "is_ready i = (case ii_ready i of None \<Rightarrow> True | Some b \<Rightarrow> b)"

definition is_healthy :: "InstanceInfo \<Rightarrow> bool" where
  "is_healthy i = state_is_healthy (h_state (ii_health i))"

definition health_check :: "InstanceInfo \<Rightarrow> bool" where
  "health_check i = h_gated (ii_health i)"

definition set_health :: "HealthState \<Rightarrow> InstanceInfo \<Rightarrow> InstanceInfo" where
  "set_health st i = i\<lparr> ii_health := observe st (ii_health i) \<rparr>"

definition set_health_check :: "bool \<Rightarrow> InstanceInfo \<Rightarrow> InstanceInfo" where
  "set_health_check b i = i\<lparr> ii_health := declare_health b (ii_health i) \<rparr>"

definition reset_health :: "InstanceInfo \<Rightarrow> InstanceInfo" where
  "reset_health i = i\<lparr> ii_health := forget (ii_health i) \<rparr>"

definition inherit_health_from :: "InstanceInfo \<Rightarrow> InstanceInfo \<Rightarrow> InstanceInfo" where
  "inherit_health_from previous i =
    (if health_check i = health_check previous \<and> ii_public_key i = ii_public_key previous
     then i\<lparr> ii_health := observe (h_state (ii_health previous)) (ii_health i) \<rparr>
     else i)"

lemma inherit_health_ok [gw_health]:
  "health_ok (ii_health i) \<Longrightarrow> health_ok (ii_health p) \<Longrightarrow>
    health_ok (ii_health (inherit_health_from p i))"
  by (simp add: inherit_health_from_def health_ok_def health_check_def observe_def)

record RoutingInputs =
  ri_ip :: ipv4
  ri_app_id :: string
  ri_public_key :: string
  ri_ready :: "bool option"
  ri_health :: Health

definition routing_inputs :: "InstanceInfo \<Rightarrow> RoutingInputs" where
  "routing_inputs i =
    \<lparr> ri_ip = ii_ip i, ri_app_id = ii_app_id i, ri_public_key = ii_public_key i,
      ri_ready = ii_ready i, ri_health = ii_health i \<rparr>"

definition routing_inputs_differ :: "InstanceInfo \<Rightarrow> InstanceInfo \<Rightarrow> bool" where
  "routing_inputs_differ i j = (routing_inputs i \<noteq> routing_inputs j)"

lemma routing_inputs_eq_iff:
  "routing_inputs i = routing_inputs j \<longleftrightarrow>
    ii_ip i = ii_ip j \<and> ii_app_id i = ii_app_id j \<and> ii_public_key i = ii_public_key j \<and>
    ii_ready i = ii_ready j \<and> ii_health i = ii_health j"
  by (auto simp: routing_inputs_def)

lemma routing_inputs_ready: "routing_inputs i = routing_inputs j \<Longrightarrow> is_ready i = is_ready j"
  by (simp add: routing_inputs_eq_iff is_ready_def)

section \<open>Replicated records\<close>

record InstanceRecord =
  ir_app_id :: string
  ir_ip :: ipv4
  ir_public_key :: string
  ir_reg_time :: nat
  ir_port_policy :: "PortPolicy option"
  ir_port_policy_hash :: string
  ir_health_check :: "bool option"

datatype PortPolicyOverride = Cleared | SetPolicy PortPolicy

record LegacyOverrides =
  lo_admin_port_policy :: "PortPolicy option"
  lo_ready :: "bool option"

definition legacy_is_empty :: "LegacyOverrides \<Rightarrow> bool" where
  "legacy_is_empty l = (lo_admin_port_policy l = None \<and> lo_ready l = None)"

record LoadedInstances =
  decoded :: "(string, InstanceRecord) btree_map"
  undecodable :: "(string, string) btree_map"

definition record_of_info :: "InstanceInfo \<Rightarrow> InstanceRecord" where
  "record_of_info i =
    \<lparr> ir_app_id = ii_app_id i, ir_ip = ii_ip i, ir_public_key = ii_public_key i,
      ir_reg_time = encode_ts (ii_reg_time i), ir_port_policy = ii_port_policy i,
      ir_port_policy_hash = ii_port_policy_hash i, ir_health_check = Some (health_check i) \<rparr>"

section \<open>Connection counters\<close>

type_synonym counters = "counter_ref \<Rightarrow> 64 word"

definition counter_inc :: "counter_ref \<Rightarrow> counters \<Rightarrow> counters" where
  "counter_inc r c = c(r := c r + 1)"

definition counter_dec :: "counter_ref \<Rightarrow> counters \<Rightarrow> counters" where
  "counter_dec r c = c(r := c r - 1)"

definition try_enter :: "counter_ref \<Rightarrow> 64 word \<Rightarrow> 64 word \<Rightarrow> counters \<Rightarrow> counters option" where
  "try_enter r others mx c =
    (if c r + others < mx then Some (c(r := c r + 1)) else None)"

lemma counter_dec_inc [simp]: "counter_dec r (counter_inc r c) = c"
  by (simp add: counter_dec_def counter_inc_def fun_eq_iff)

lemma try_enter_some:
  assumes "try_enter r others mx c = Some c'"
  shows "c' = counter_inc r c" "counter_dec r c' = c"
  using assms by (auto simp: try_enter_def counter_inc_def counter_dec_def split: if_splits)

lemma try_enter_bound:
  assumes "try_enter r others mx c = Some c'" "unat (c r) + unat others < 2 ^ 64"
  shows "unat (c' r) + unat others \<le> unat mx"
proof -
  have "unat (c r + others) < unat mx"
    using assms(1) by (simp add: try_enter_def word_less_nat_alt split: if_splits)
  moreover have "unat (c r + others) = unat (c r) + unat others"
    using assms(2) by (simp add: unat_add_lem [THEN iffD1])
  moreover have "unat (c r + 1) \<le> unat (c r) + 1"
    by (simp add: unat_word_ariths)
  ultimately show ?thesis
    using assms(1) by (auto simp: try_enter_def split: if_splits)
qed

end
