(* ===== verification/Gateway_Import.thy ===== *)
theory Gateway_Import
  imports Gateway_Models "HOL-Library.Product_Lexorder"
begin

text \<open>
  The boundary between replicated records and the data plane
  (\<^verbatim>\<open>gateway/src/kv/import.rs\<close>) and the address checks of the WireGuard configuration it uses
  (\<^verbatim>\<open>gateway/src/config.rs\<close>).  The crates \<^verbatim>\<open>ipnet\<close> and \<^verbatim>\<open>base64\<close> are not part of the repository:
  their functions are the fields of the record \<open>'net ext_ops\<close>, passed to every definition that
  calls them.
\<close>

named_theorems import_simps \<open>facts about the import loop\<close>

section \<open>External functions\<close>

record 'net ext_ops =
  net_addr :: "'net \<Rightarrow> ipv4"
  net_broadcast :: "'net \<Rightarrow> ipv4"
  net_contains_ip :: "'net \<Rightarrow> ipv4 \<Rightarrow> bool"
  net_contains_net :: "'net \<Rightarrow> 'net \<Rightarrow> bool"
  net_trunc :: "'net \<Rightarrow> 'net"
  net_hosts :: "'net \<Rightarrow> ipv4 list"
  b64_decode :: "string \<Rightarrow> bytes option"

section \<open>WireGuard configuration\<close>

record 'net WgConfig =
  wg_public_key :: string
  wg_private_key :: string
  wg_listen_port :: "16 word"
  wg_ip :: 'net
  wg_reserved_net :: "'net list"
  wg_client_ip_range :: 'net
  wg_interface :: string
  wg_config_path :: string
  wg_endpoint :: string

definition ip_octet0 :: "ipv4 \<Rightarrow> nat" where
  "ip_octet0 ip = unat (drop_bit 24 ip)"

definition is_unspecified :: "ipv4 \<Rightarrow> bool" where
  "is_unspecified ip = (ip = 0)"

definition is_loopback :: "ipv4 \<Rightarrow> bool" where
  "is_loopback ip = (ip_octet0 ip = 127)"

definition is_multicast :: "ipv4 \<Rightarrow> bool" where
  "is_multicast ip = (224 \<le> ip_octet0 ip \<and> ip_octet0 ip \<le> 239)"

definition is_broadcast :: "ipv4 \<Rightarrow> bool" where
  "is_broadcast ip = (ip = 0xFFFFFFFF)"

definition is_routable_client_ip :: "'net ext_ops \<Rightarrow> 'net WgConfig \<Rightarrow> ipv4 \<Rightarrow> bool" where
  "is_routable_client_ip X wg ip =
    (if is_unspecified ip \<or> is_loopback ip \<or> is_multicast ip \<or> is_broadcast ip then False
     else if net_addr X (wg_ip wg) = ip \<or> net_broadcast X (wg_ip wg) = ip then False
     else if list_ex (\<lambda>net. net_contains_ip X net ip) (wg_reserved_net wg) then False
     else True)"

definition is_valid_client_ip :: "'net ext_ops \<Rightarrow> 'net WgConfig \<Rightarrow> ipv4 \<Rightarrow> bool" where
  "is_valid_client_ip X wg ip =
    (net_contains_ip X (wg_client_ip_range wg) ip \<and> is_routable_client_ip X wg ip)"

datatype config_error = Reserved_not_in_network | Peer_ip_not_reserved | Client_range_not_in_network

definition validate_nets :: "'net ext_ops \<Rightarrow> 'net \<Rightarrow> 'net list \<Rightarrow> 'net \<Rightarrow> (config_error + unit)" where
  "validate_nets X ip reserved_net client_ip_range =
    (if list_ex (\<lambda>net. \<not> net_contains_net X ip net) reserved_net then Inl Reserved_not_in_network
     else if \<not> list_ex (\<lambda>net. net_contains_ip X net (net_addr X ip)) reserved_net
       then Inl Peer_ip_not_reserved
     else if \<not> net_contains_net X (net_trunc X ip) client_ip_range
       then Inl Client_range_not_in_network
     else Inr ())"

definition validate_wg :: "'net ext_ops \<Rightarrow> 'net WgConfig \<Rightarrow> (config_error + unit)" where
  "validate_wg X wg = validate_nets X (wg_ip wg) (wg_reserved_net wg) (wg_client_ip_range wg)"

section \<open>Per-record checks\<close>

datatype import_error =
    Key_empty
  | Key_whitespace
  | Key_length nat
  | Key_not_base64
  | Key_bytes nat
  | Id_empty string
  | Id_too_long string nat
  | Id_whitespace string
  | Key_of_gateway
  | Ip_not_routable ipv4
  | Reg_time_in_future nat nat
  | Ip_taken ipv4 string
  | Key_taken
  | Undecodable_record string

definition WG_PUBLIC_KEY_BYTES :: nat where "WG_PUBLIC_KEY_BYTES = 32"
definition WG_PUBLIC_KEY_B64_LEN :: nat where "WG_PUBLIC_KEY_B64_LEN = 44"
definition MAX_ID_LEN :: nat where "MAX_ID_LEN = 128"
definition MAX_CLOCK_DRIFT_SECS :: nat where "MAX_CLOCK_DRIFT_SECS = 300"

definition has_whitespace_or_control :: "string \<Rightarrow> bool" where
  "has_whitespace_or_control s =
    list_ex (\<lambda>c. char_is_whitespace c \<or> char_is_control c) (utf8_chars s)"

definition validate_wg_public_key :: "'net ext_ops \<Rightarrow> string \<Rightarrow> (import_error + unit)" where
  "validate_wg_public_key X key =
    rbind (ensure (key \<noteq> []) Key_empty) (\<lambda>_.
    rbind (ensure (\<not> has_whitespace_or_control key) Key_whitespace) (\<lambda>_.
    rbind (ensure (length key = WG_PUBLIC_KEY_B64_LEN) (Key_length (length key))) (\<lambda>_.
    rbind (ok_or Key_not_base64 (b64_decode X key)) (\<lambda>decoded.
      ensure (length decoded = WG_PUBLIC_KEY_BYTES) (Key_bytes (length decoded))))))"

definition validate_id :: "string \<Rightarrow> string \<Rightarrow> (import_error + unit)" where
  "validate_id field val =
    rbind (ensure (val \<noteq> []) (Id_empty field)) (\<lambda>_.
    rbind (ensure (length val \<le> MAX_ID_LEN) (Id_too_long field (length val))) (\<lambda>_.
      ensure (\<not> has_whitespace_or_control val) (Id_whitespace field)))"

definition validate_instance ::
  "'net ext_ops \<Rightarrow> 'net WgConfig \<Rightarrow> nat \<Rightarrow> string \<Rightarrow> InstanceRecord \<Rightarrow> (import_error + unit)" where
  "validate_instance X wg now instance_id data =
    rbind (validate_id ''instance_id'' instance_id) (\<lambda>_.
    rbind (validate_id ''app_id'' (ir_app_id data)) (\<lambda>_.
    rbind (validate_wg_public_key X (ir_public_key data)) (\<lambda>_.
    rbind (ensure (ir_public_key data \<noteq> wg_public_key wg) Key_of_gateway) (\<lambda>_.
    rbind (ensure (is_routable_client_ip X wg (ir_ip data)) (Ip_not_routable (ir_ip data))) (\<lambda>_.
      ensure (ir_reg_time data \<le> sat_add 64 now MAX_CLOCK_DRIFT_SECS)
        (Reg_time_in_future (ir_reg_time data) now))))))"

section \<open>The import loop\<close>

datatype Rejection = Unusable | LostConflict

record RejectedInstance =
  rj_instance_id :: string
  rj_reason :: import_error
  rj_rejection :: Rejection

record AcceptedInstances =
  ai_instances :: "(string, InstanceRecord) btree_map"
  ai_rejected :: "RejectedInstance list"

definition unreadable :: "AcceptedInstances \<Rightarrow> string set" where
  "unreadable a =
    set (map rj_instance_id (filter (\<lambda>r. rj_rejection r = Unusable) (ai_rejected a)))"

record import_acc =
  acc_instances :: "(string, InstanceRecord) btree_map"
  acc_rejected :: "RejectedInstance list"
  acc_ips :: "ipv4 \<rightharpoonup> string"
  acc_keys :: "string set"

definition check_record ::
  "'net ext_ops \<Rightarrow> 'net WgConfig \<Rightarrow> nat \<Rightarrow> import_acc \<Rightarrow> string \<Rightarrow> InstanceRecord
    \<Rightarrow> (Rejection \<times> import_error) + unit" where
  "check_record X wg now acc instance_id data =
    (case validate_instance X wg now instance_id data of
       Inl e \<Rightarrow> Inl (Unusable, e)
     | Inr _ \<Rightarrow>
        (case acc_ips acc (ir_ip data) of
           Some own \<Rightarrow> Inl (LostConflict, Ip_taken (ir_ip data) own)
         | None \<Rightarrow>
            if ir_public_key data \<in> acc_keys acc then Inl (LostConflict, Key_taken) else Inr ()))"

fun import_step ::
  "'net ext_ops \<Rightarrow> 'net WgConfig \<Rightarrow> nat \<Rightarrow> string \<times> InstanceRecord \<Rightarrow> import_acc \<Rightarrow> import_acc" where
  "import_step X wg now (instance_id, data) acc =
    (case check_record X wg now acc instance_id data of
       Inl (rejection, reason) \<Rightarrow>
         acc\<lparr> acc_rejected := acc_rejected acc @
           [\<lparr> rj_instance_id = instance_id, rj_reason = reason, rj_rejection = rejection \<rparr>] \<rparr>
     | Inr _ \<Rightarrow>
         acc\<lparr> acc_ips := (acc_ips acc)(ir_ip data \<mapsto> instance_id),
              acc_keys := insert (ir_public_key data) (acc_keys acc),
              acc_instances := bt_insert instance_id data (acc_instances acc) \<rparr>)"

definition import_order :: "string \<times> InstanceRecord \<Rightarrow> nat \<times> string" where
  "import_order p = (ir_reg_time (snd p), fst p)"

definition import_start :: "LoadedInstances \<Rightarrow> import_acc" where
  "import_start loaded =
    \<lparr> acc_instances = [],
      acc_rejected = map (\<lambda>(i, e). \<lparr> rj_instance_id = i, rj_reason = Undecodable_record e,
        rj_rejection = Unusable \<rparr>) (undecodable loaded),
      acc_ips = Map.empty, acc_keys = {} \<rparr>"

definition accept_instances_at ::
  "'net ext_ops \<Rightarrow> 'net WgConfig \<Rightarrow> LoadedInstances \<Rightarrow> nat \<Rightarrow> AcceptedInstances" where
  "accept_instances_at X wg loaded now =
    (let acc = fold (import_step X wg now) (sort_key import_order (decoded loaded))
                 (import_start loaded)
     in \<lparr> ai_instances = acc_instances acc, ai_rejected = acc_rejected acc \<rparr>)"

definition accept_instances ::
  "'net ext_ops \<Rightarrow> 'net WgConfig \<Rightarrow> LoadedInstances \<Rightarrow> system_time \<Rightarrow> AcceptedInstances" where
  "accept_instances X wg loaded now = accept_instances_at X wg loaded (encode_ts now)"

section \<open>What the import loop accepts\<close>

definition import_run ::
  "'net ext_ops \<Rightarrow> 'net WgConfig \<Rightarrow> nat \<Rightarrow> LoadedInstances \<Rightarrow> (string \<times> InstanceRecord) list
    \<Rightarrow> import_acc" where
  "import_run X wg now L ps = fold (import_step X wg now) ps (import_start L)"

text \<open>The records that hold an address or a key which \<open>d\<close> also claims.\<close>

definition clashes :: "InstanceRecord \<Rightarrow> InstanceRecord \<Rightarrow> bool" where
  "clashes d' d = (ir_ip d' = ir_ip d \<or> ir_public_key d' = ir_public_key d)"

definition acc_ok :: "import_acc \<Rightarrow> bool" where
  "acc_ok acc =
    (bt_wf (acc_instances acc) \<and>
     (\<forall>ip. acc_ips acc ip \<noteq> None \<longleftrightarrow> (\<exists>j d. bt_get (acc_instances acc) j = Some d \<and> ir_ip d = ip)) \<and>
     (\<forall>k. k \<in> acc_keys acc \<longleftrightarrow> (\<exists>j d. bt_get (acc_instances acc) j = Some d \<and> ir_public_key d = k)))"

lemma import_run_Nil [simp]: "import_run X wg now L [] = import_start L"
  by (simp add: import_run_def)

lemma import_run_snoc [simp]:
  "import_run X wg now L (ps @ [p]) = import_step X wg now p (import_run X wg now L ps)"
  by (simp add: import_run_def)

lemma check_record_Inr:
  assumes "acc_ok acc"
  shows "check_record X wg now acc i d = Inr () \<longleftrightarrow>
    validate_instance X wg now i d = Inr () \<and>
    (\<forall>j d'. bt_get (acc_instances acc) j = Some d' \<longrightarrow> \<not> clashes d' d)"
proof -
  have ips: "acc_ips acc (ir_ip d) \<noteq> None \<longleftrightarrow>
      (\<exists>j e. bt_get (acc_instances acc) j = Some e \<and> ir_ip e = ir_ip d)"
    and keys: "ir_public_key d \<in> acc_keys acc \<longleftrightarrow>
      (\<exists>j e. bt_get (acc_instances acc) j = Some e \<and> ir_public_key e = ir_public_key d)"
    using assms by (simp_all add: acc_ok_def)
  have "check_record X wg now acc i d = Inr () \<longleftrightarrow> validate_instance X wg now i d = Inr () \<and>
      \<not> (acc_ips acc (ir_ip d) \<noteq> None \<or> ir_public_key d \<in> acc_keys acc)"
    by (auto simp: check_record_def split: sum.splits option.splits)
  then show ?thesis
    unfolding ips keys clashes_def by blast
qed

lemma import_step_instances:
  "acc_instances (import_step X wg now (i, d) acc) =
    (if check_record X wg now acc i d = Inr () then bt_insert i d (acc_instances acc)
     else acc_instances acc)"
  by (auto split: sum.splits prod.splits)

lemma import_step_rejected:
  "acc_rejected (import_step X wg now (i, d) acc) =
    acc_rejected acc @
    (case check_record X wg now acc i d of
       Inl (rejection, reason) \<Rightarrow>
         [\<lparr> rj_instance_id = i, rj_reason = reason, rj_rejection = rejection \<rparr>]
     | Inr _ \<Rightarrow> [])"
  by (auto split: sum.splits prod.splits)

lemma acc_ok_start: "acc_ok (import_start L)"
  by (simp add: acc_ok_def import_start_def)

lemma acc_ok_step:
  assumes ok: "acc_ok acc" and fresh: "bt_get (acc_instances acc) i = None"
  shows "acc_ok (import_step X wg now (i, d) acc)"
proof (cases "check_record X wg now acc i d")
  case (Inl e)
  then show ?thesis using ok by (cases e) (simp add: acc_ok_def)
next
  case (Inr u)
  have "(\<exists>j e. bt_get (bt_insert i d (acc_instances acc)) j = Some e \<and> P e) \<longleftrightarrow>
      P d \<or> (\<exists>j e. bt_get (acc_instances acc) j = Some e \<and> P e)" for P
    using fresh by (auto; metis option.distinct(1))
  then show ?thesis
    using ok Inr unfolding acc_ok_def by auto
qed

declare import_step.simps [simp del]

text \<open>
  The state of the loop after a prefix \<open>ps\<close> of the sorted records: exactly the valid ones with no
  earlier accepted clash are in.
\<close>

definition accepted_upto ::
  "'net ext_ops \<Rightarrow> 'net WgConfig \<Rightarrow> nat \<Rightarrow> (string \<times> InstanceRecord) list \<Rightarrow> import_acc \<Rightarrow> bool" where
  "accepted_upto X wg now ps acc =
    ((\<forall>i d. bt_get (acc_instances acc) i = Some d \<longrightarrow> (i, d) \<in> set ps) \<and>
     (\<forall>i d. (i, d) \<in> set ps \<longrightarrow>
       (bt_get (acc_instances acc) i = Some d \<longleftrightarrow>
         validate_instance X wg now i d = Inr () \<and>
         (\<forall>j d'. bt_get (acc_instances acc) j = Some d' \<and> import_order (j, d') < import_order (i, d)
            \<longrightarrow> \<not> clashes d' d))))"

lemma accepted_upto_step:
  assumes ok: "acc_ok acc" and upto: "accepted_upto X wg now ps acc"
    and new: "i \<notin> fst ` set ps"
    and last: "\<And>p. p \<in> set ps \<Longrightarrow> import_order p < import_order (i, d)"
  shows "accepted_upto X wg now (ps @ [(i, d)]) (import_step X wg now (i, d) acc)"
proof -
  define I where "I = acc_instances acc"
  define I' where "I' = acc_instances (import_step X wg now (i, d) acc)"
  define C where "C \<longleftrightarrow> check_record X wg now acc i d = Inr ()"
  have sub: "bt_get I j = Some e \<Longrightarrow> (j, e) \<in> set ps" for j e
    using upto by (simp add: accepted_upto_def I_def)
  have fresh: "bt_get I i = None"
    using sub [of i] new by (cases "bt_get I i") force+
  have get': "bt_get I' j = (if j = i then (if C then Some d else None) else bt_get I j)" for j
    using fresh by (simp add: I'_def I_def import_step_instances C_def)
  have lt: "bt_get I j = Some e \<Longrightarrow> import_order (j, e) < import_order (i, d)" for j e
    using sub last by blast
  have C: "C \<longleftrightarrow> validate_instance X wg now i d = Inr () \<and> (\<forall>j d'. bt_get I j = Some d' \<longrightarrow> \<not> clashes d' d)"
    using check_record_Inr [OF ok] by (simp add: C_def I_def)
  have old: "bt_get I' k = Some e \<longleftrightarrow> validate_instance X wg now k e = Inr () \<and>
      (\<forall>j d'. bt_get I' j = Some d' \<and> import_order (j, d') < import_order (k, e) \<longrightarrow> \<not> clashes d' e)"
    if ps: "(k, e) \<in> set ps" for k e
  proof -
    have "k \<noteq> i" using ps new by force
    moreover have "\<not> import_order (i, d) < import_order (k, e)"
      using last [OF ps] by simp
    ultimately have "bt_get I' k = Some e \<longleftrightarrow> bt_get I k = Some e"
      "bt_get I' j = Some d' \<and> import_order (j, d') < import_order (k, e) \<longleftrightarrow>
        bt_get I j = Some d' \<and> import_order (j, d') < import_order (k, e)" for j d'
      using get' fresh by (auto split: if_splits)
    then show ?thesis
      using upto ps unfolding accepted_upto_def I_def [symmetric] by simp
  qed
  have "bt_get I' j = Some d' \<and> import_order (j, d') < import_order (i, d) \<longleftrightarrow>
      bt_get I j = Some d'" for j d'
    using get' lt fresh by (auto split: if_splits)
  then have "bt_get I' i = Some d \<longleftrightarrow> validate_instance X wg now i d = Inr () \<and>
      (\<forall>j d'. bt_get I' j = Some d' \<and> import_order (j, d') < import_order (i, d) \<longrightarrow> \<not> clashes d' d)"
    using C get' [of i] by simp
  with old have "(k, e) \<in> set (ps @ [(i, d)]) \<Longrightarrow> bt_get I' k = Some e \<longleftrightarrow>
      validate_instance X wg now k e = Inr () \<and>
      (\<forall>j d'. bt_get I' j = Some d' \<and> import_order (j, d') < import_order (k, e) \<longrightarrow> \<not> clashes d' e)"
    for k e
    by (cases "(k, e) \<in> set ps") (blast, simp)
  moreover have "bt_get I' k = Some e \<Longrightarrow> (k, e) \<in> set (ps @ [(i, d)])" for k e
    using sub get' by (auto split: if_splits)
  ultimately show ?thesis
    unfolding accepted_upto_def I'_def [symmetric] by blast
qed

lemma accepted_upto_fresh:
  assumes "accepted_upto X wg now ps acc" "i \<notin> fst ` set ps"
  shows "bt_get (acc_instances acc) i = None"
proof (cases "bt_get (acc_instances acc) i")
  case (Some d)
  then have "(i, d) \<in> set ps" using assms(1) by (simp add: accepted_upto_def)
  then show ?thesis using assms(2) by force
qed simp

lemma import_order_inj: "import_order p = import_order q \<Longrightarrow> fst p = fst q"
  by (simp add: import_order_def)

lemma import_run_ok:
  assumes "sorted (map import_order ps)" "distinct (map fst ps)"
  shows "acc_ok (import_run X wg now L ps) \<and> accepted_upto X wg now ps (import_run X wg now L ps)"
  using assms
proof (induction ps rule: rev_induct)
  case Nil
  show ?case by (simp add: acc_ok_start) (simp add: accepted_upto_def import_start_def)
next
  case (snoc p ps)
  obtain i d where p: "p = (i, d)" by (cases p)
  let ?acc = "import_run X wg now L ps"
  have IH: "acc_ok ?acc" "accepted_upto X wg now ps ?acc"
    using snoc by (auto simp: sorted_append)
  have new: "i \<notin> fst ` set ps" using snoc.prems p by auto
  have "import_order q < import_order (i, d)" if "q \<in> set ps" for q
  proof -
    have "import_order q \<le> import_order (i, d)"
      using snoc.prems(1) that p by (auto simp: sorted_append)
    moreover have "import_order q \<noteq> import_order (i, d)"
      using import_order_inj [of q "(i, d)"] new that by force
    ultimately show ?thesis by simp
  qed
  then have "accepted_upto X wg now (ps @ [(i, d)]) (import_step X wg now (i, d) ?acc)"
    using IH new by (intro accepted_upto_step) auto
  moreover have "bt_get (acc_instances ?acc) i = None"
    using IH(2) new by (rule accepted_upto_fresh)
  ultimately show ?case
    using IH(1) by (simp add: p acc_ok_step)
qed

lemma accept_instances_at_run:
  "accept_instances_at X wg L now =
    (let acc = import_run X wg now L (sort_key import_order (decoded L))
     in \<lparr> ai_instances = acc_instances acc, ai_rejected = acc_rejected acc \<rparr>)"
  by (simp add: accept_instances_at_def import_run_def)

lemma decoded_sorted:
  assumes "bt_wf (decoded L)"
  shows "sorted (map import_order (sort_key import_order (decoded L)))"
    "distinct (map fst (sort_key import_order (decoded L)))"
proof -
  have "distinct (decoded L)" "inj_on fst (set (decoded L))"
    using bt_wf_distinct [OF assms] by (simp_all add: distinct_map)
  then show "distinct (map fst (sort_key import_order (decoded L)))"
    by (simp add: distinct_map)
qed simp

lemma accepted_characterised:
  fixes X :: "'net ext_ops" and wg :: "'net WgConfig" and now :: nat
  assumes "bt_wf (decoded L)"
  defines "A \<equiv> ai_instances (accept_instances_at X wg L now)"
  shows "bt_wf A"
    and "bt_get A i = Some d \<longleftrightarrow>
      (i, d) \<in> set (decoded L) \<and> validate_instance X wg now i d = Inr () \<and>
      (\<forall>j d'. bt_get A j = Some d' \<and> import_order (j, d') < import_order (i, d) \<longrightarrow> \<not> clashes d' d)"
proof -
  let ?acc = "import_run X wg now L (sort_key import_order (decoded L))"
  have A: "A = acc_instances ?acc"
    by (simp add: A_def accept_instances_at_run Let_def)
  have run: "acc_ok ?acc" "accepted_upto X wg now (sort_key import_order (decoded L)) ?acc"
    using import_run_ok [OF decoded_sorted [OF assms(1)]] by auto
  show "bt_wf A"
    using run(1) A by (simp add: acc_ok_def)
  show "bt_get A i = Some d \<longleftrightarrow>
      (i, d) \<in> set (decoded L) \<and> validate_instance X wg now i d = Inr () \<and>
      (\<forall>j d'. bt_get A j = Some d' \<and> import_order (j, d') < import_order (i, d) \<longrightarrow> \<not> clashes d' d)"
    using run(2) unfolding accepted_upto_def A [symmetric] set_sort by blast
qed

lemma accepted_no_clash:
  assumes "bt_wf (decoded L)"
    and "bt_get (ai_instances (accept_instances_at X wg L now)) i = Some d"
    and "bt_get (ai_instances (accept_instances_at X wg L now)) j = Some e" and "i \<noteq> j"
  shows "\<not> clashes d e"
proof -
  have "import_order (i, d) < import_order (j, e) \<or> import_order (j, e) < import_order (i, d)"
    using import_order_inj [of "(i, d)" "(j, e)"] assms(4) by force
  moreover have "clashes d e = clashes e d"
    by (auto simp: clashes_def)
  ultimately show ?thesis
    using assms accepted_characterised(2) [OF assms(1)] by metis
qed

section \<open>How the import loop reports what it refused\<close>

definition refused_as :: "Rejection \<Rightarrow> import_acc \<Rightarrow> string set" where
  "refused_as r acc =
    set (map rj_instance_id (filter (\<lambda>x. rj_rejection x = r) (acc_rejected acc)))"

lemma refused_as_start:
  "refused_as r (import_start L) = (if r = Unusable then fst ` set (undecodable L) else {})"
  by (cases r) (simp_all add: refused_as_def import_start_def case_prod_unfold filter_map o_def
    image_image)

lemma refused_as_step:
  "refused_as r (import_step X wg now (i, d) acc) =
    refused_as r acc \<union>
    (if \<exists>e. check_record X wg now acc i d = Inl (r, e) then {i} else {})"
proof (cases "check_record X wg now acc i d")
  case (Inl p)
  obtain r' e where "p = (r', e)" by (cases p)
  with Inl show ?thesis
    by (simp add: refused_as_def import_step_rejected)
next
  case (Inr u)
  then show ?thesis by (simp add: refused_as_def import_step_rejected)
qed

lemma check_record_unusable:
  "(\<exists>e. check_record X wg now acc i d = Inl (Unusable, e)) \<longleftrightarrow>
    validate_instance X wg now i d \<noteq> Inr ()"
  by (auto simp: check_record_def split: sum.splits option.splits)

lemma refused_unusable_run:
  "refused_as Unusable (import_run X wg now L ps) =
    fst ` set (undecodable L) \<union> {i. \<exists>d. (i, d) \<in> set ps \<and> validate_instance X wg now i d \<noteq> Inr ()}"
proof (induction ps rule: rev_induct)
  case Nil
  show ?case by (simp add: refused_as_start)
next
  case (snoc p ps)
  obtain i d where "p = (i, d)" by (cases p)
  then show ?case
    using snoc by (auto simp: refused_as_step check_record_unusable)
qed

lemma unreadable_characterised:
  "unreadable (accept_instances_at X wg L now) =
    fst ` set (undecodable L) \<union>
    {i. \<exists>d. (i, d) \<in> set (decoded L) \<and> validate_instance X wg now i d \<noteq> Inr ()}"
proof -
  have "unreadable (accept_instances_at X wg L now) =
      refused_as Unusable (import_run X wg now L (sort_key import_order (decoded L)))"
    by (auto simp: unreadable_def refused_as_def accept_instances_at_run Let_def)
  then show ?thesis
    by (simp add: refused_unusable_run)
qed

section \<open>Concrete external functions\<close>

text \<open>
  IPv4 networks as an address with a prefix length and the padded base64 alphabet, used to
  evaluate the model on concrete inputs.
\<close>

type_synonym cidr = "ipv4 \<times> nat"

definition cidr_trunc :: "cidr \<Rightarrow> cidr" where
  "cidr_trunc n = (push_bit (32 - snd n) (drop_bit (32 - snd n) (fst n)), snd n)"

definition cidr_broadcast :: "cidr \<Rightarrow> ipv4" where
  "cidr_broadcast n = fst (cidr_trunc n) + (2 ^ (32 - snd n) - 1)"

definition cidr_contains :: "cidr \<Rightarrow> ipv4 \<Rightarrow> bool" where
  "cidr_contains n ip = (drop_bit (32 - snd n) ip = drop_bit (32 - snd n) (fst n))"

definition cidr_contains_net :: "cidr \<Rightarrow> cidr \<Rightarrow> bool" where
  "cidr_contains_net n m = (snd n \<le> snd m \<and> cidr_contains n (fst m))"

definition cidr_hosts :: "cidr \<Rightarrow> ipv4 list" where
  "cidr_hosts n = map (\<lambda>k. fst (cidr_trunc n) + of_nat k) [1..<2 ^ (32 - snd n) - 1]"

definition b64_alphabet :: string where
  "b64_alphabet = ''ABCDEFGHIJKLMNOPQRSTUVWXYZabcdefghijklmnopqrstuvwxyz0123456789+/''"

fun b64_index :: "char \<Rightarrow> string \<Rightarrow> nat option" where
  "b64_index c [] = None"
| "b64_index c (d # ds) = (if c = d then Some 0 else map_option Suc (b64_index c ds))"

fun b64_quads :: "string \<Rightarrow> bytes option" where
  "b64_quads [] = Some []"
| "b64_quads (a # b # c # d # s) =
    (case (b64_index a b64_alphabet, b64_index b b64_alphabet) of
       (Some i, Some j) \<Rightarrow>
         if c = CHR ''='' then (if d = CHR ''='' \<and> s = [] then Some [of_nat (i * 4 + j div 16)] else None)
         else (case b64_index c b64_alphabet of
            None \<Rightarrow> None
          | Some k \<Rightarrow>
             if d = CHR ''='' then
               (if s = [] then Some [of_nat (i * 4 + j div 16), of_nat (j mod 16 * 16 + k div 4)] else None)
             else (case (b64_index d b64_alphabet, b64_quads s) of
                (Some l, Some bs) \<Rightarrow>
                  Some (of_nat (i * 4 + j div 16) # of_nat (j mod 16 * 16 + k div 4) #
                        of_nat (k mod 4 * 64 + l) # bs)
              | _ \<Rightarrow> None))
     | _ \<Rightarrow> None)"
| "b64_quads _ = None"

definition cidr_ops :: "cidr ext_ops" where
  "cidr_ops = \<lparr> net_addr = fst, net_broadcast = cidr_broadcast, net_contains_ip = cidr_contains,
    net_contains_net = cidr_contains_net, net_trunc = cidr_trunc, net_hosts = cidr_hosts,
    b64_decode = b64_quads \<rparr>"

definition demo_wg :: "cidr WgConfig" where
  "demo_wg = \<lparr> wg_public_key = ''gw'', wg_private_key = ''sk'', wg_listen_port = 51820,
    wg_ip = (0x0A000001, 24), wg_reserved_net = [(0x0A000000, 30)],
    wg_client_ip_range = (0x0A000008, 29), wg_interface = ''wg0'',
    wg_config_path = ''/etc/wg.conf'', wg_endpoint = ''gw:51820'' \<rparr>"

definition demo_key :: "char \<Rightarrow> string" where
  "demo_key c = c # ''AAAAAAAAAAAAAAAAAAAAAAAAAAAAAAAAAAAAAAAAAA=''"

definition demo_record :: "ipv4 \<Rightarrow> char \<Rightarrow> nat \<Rightarrow> InstanceRecord" where
  "demo_record ip c t = \<lparr> ir_app_id = ''app'', ir_ip = ip, ir_public_key = demo_key c,
    ir_reg_time = t, ir_port_policy = None, ir_port_policy_hash = [], ir_health_check = None \<rparr>"

definition demo_loaded :: LoadedInstances where
  "demo_loaded = \<lparr> decoded = [(''a'', demo_record 0x0A000009 (CHR ''A'') 20),
      (''b'', demo_record 0x0A000009 (CHR ''B'') 10), (''c'', demo_record 0x0A00000A (CHR ''C'') 900)],
    undecodable = [(''x'', ''truncated'')] \<rparr>"

lemma demo_loaded_wf: "bt_wf (decoded demo_loaded)"
  by code_simp

lemma demo_accepted:
  "ai_instances (accept_instances_at cidr_ops demo_wg demo_loaded 100) =
    [(''b'', demo_record 0x0A000009 (CHR ''B'') 10)]"
  by code_simp

section \<open>Properties\<close>

text \<open>
  C7. The import decision is a function of the stored records: a record is accepted exactly when
  it passes the per-record checks and no accepted record that registered earlier (ties broken by
  instance id) holds its address or its key.
\<close>

theorem accept_instances_oldest_wins:
  assumes "bt_wf (decoded L)"
  shows "bt_get (ai_instances (accept_instances_at X wg L now)) i = Some d \<longleftrightarrow>
    (i, d) \<in> set (decoded L) \<and> validate_instance X wg now i d = Inr () \<and>
    \<not> (\<exists>j d'. bt_get (ai_instances (accept_instances_at X wg L now)) j = Some d' \<and>
          import_order (j, d') < import_order (i, d) \<and>
          (ir_ip d' = ir_ip d \<or> ir_public_key d' = ir_public_key d))"
  using accepted_characterised(2) [OF assms, of X wg now i d] unfolding clashes_def by blast

theorem accept_instances_oldest_wins_witness:
  "bt_wf (decoded demo_loaded) \<and>
   validate_instance cidr_ops demo_wg 100 ''b'' (demo_record 0x0A000009 (CHR ''B'') 10) = Inr ()"
  using accept_instances_oldest_wins [OF demo_loaded_wf, of cidr_ops demo_wg 100 "''b''"
      "demo_record 0x0A000009 (CHR ''B'') 10"] demo_loaded_wf
  by (simp add: demo_accepted bt_get_def)

text \<open>
  No two instances that reach the data plane share a tunnel address or a WireGuard key, and
  each one passed every per-record check.
\<close>

lemma accept_instances_unique:
  assumes "bt_wf (decoded L)"
    and "bt_get (ai_instances (accept_instances_at X wg L now)) i = Some d"
    and "bt_get (ai_instances (accept_instances_at X wg L now)) j = Some e"
    and "i \<noteq> j"
  shows "ir_ip d \<noteq> ir_ip e \<and> ir_public_key d \<noteq> ir_public_key e \<and>
    validate_instance X wg now i d = Inr ()"
  using accepted_no_clash [OF assms] accepted_characterised(2) [OF assms(1), of X wg now i d] assms(2)
  by (simp add: clashes_def)

definition demo_pair :: LoadedInstances where
  "demo_pair = \<lparr> decoded = [(''a'', demo_record 0x0A000009 (CHR ''A'') 20),
      (''b'', demo_record 0x0A00000A (CHR ''B'') 10)], undecodable = [] \<rparr>"

lemma demo_pair_accepted:
  "ai_instances (accept_instances_at cidr_ops demo_wg demo_pair 100) = decoded demo_pair"
  by code_simp

end
