(* ===== verification/Msgpack_Walk.thy ===== *)
theory Msgpack_Walk
  imports Dstack_Prelude
begin

text \<open>
  Walking a MessagePack value without decoding it and splitting a map into its top-level fields
  (\<^verbatim>\<open>gateway/src/kv/compat.rs\<close>: \<^verbatim>\<open>skip_value\<close>, \<^verbatim>\<open>read_uint\<close>, \<^verbatim>\<open>read_str\<close>, \<^verbatim>\<open>split_map\<close>,
  \<^verbatim>\<open>write_map_header\<close>).  \<^verbatim>\<open>rmp::Marker::from_u8\<close> belongs to the crate \<^verbatim>\<open>rmp\<close> and is the parameter
  \<open>M\<close>.  The iterative walk is proved equal to a reference that consumes the remaining bytes as a
  list; the reference depends only on the bytes it consumes.
\<close>

section \<open>Markers and values\<close>

datatype Marker =
    FixPos nat | FixNeg nat | MNull | MTrue | MFalse
  | MU8 | MI8 | MU16 | MI16 | MU32 | MI32 | MF32 | MU64 | MI64 | MF64
  | FixStr nat | Str8 | Str16 | Str32 | Bin8 | Bin16 | Bin32
  | FixExt1 | FixExt2 | FixExt4 | FixExt8 | FixExt16 | Ext8 | Ext16 | Ext32
  | FixArray nat | Array16 | Array32 | FixMap nat | Map16 | Map32 | Reserved

definition usize_bits :: nat where "usize_bits = 64"

definition read_uint :: "bytes \<Rightarrow> nat \<Rightarrow> nat \<Rightarrow> nat option" where
  "read_uint buf pos sz =
    Option.bind (checked_add usize_bits pos sz) (\<lambda>e.
    Option.bind (get_range buf pos e) (\<lambda>bs.
      foldl (\<lambda>acc b. Option.bind acc (\<lambda>a. Option.bind (checked_mul usize_bits a 256) (\<lambda>m.
        checked_add usize_bits m (unat b)))) (Some 0) bs))"

text \<open>Payload bytes after the marker, and the number of child values, for the marker read at
  \<open>pos - 1\<close>.\<close>

fun marker_shape :: "bytes \<Rightarrow> nat \<Rightarrow> Marker \<Rightarrow> (nat \<times> nat) option" where
  "marker_shape buf pos (FixPos _) = Some (0, 0)"
| "marker_shape buf pos (FixNeg _) = Some (0, 0)"
| "marker_shape buf pos MNull = Some (0, 0)"
| "marker_shape buf pos MTrue = Some (0, 0)"
| "marker_shape buf pos MFalse = Some (0, 0)"
| "marker_shape buf pos MU8 = Some (1, 0)"
| "marker_shape buf pos MI8 = Some (1, 0)"
| "marker_shape buf pos MU16 = Some (2, 0)"
| "marker_shape buf pos MI16 = Some (2, 0)"
| "marker_shape buf pos MU32 = Some (4, 0)"
| "marker_shape buf pos MI32 = Some (4, 0)"
| "marker_shape buf pos MF32 = Some (4, 0)"
| "marker_shape buf pos MU64 = Some (8, 0)"
| "marker_shape buf pos MI64 = Some (8, 0)"
| "marker_shape buf pos MF64 = Some (8, 0)"
| "marker_shape buf pos (FixStr len) = Some (len, 0)"
| "marker_shape buf pos Str8 = map_option (\<lambda>n. (1 + n, 0)) (read_uint buf pos 1)"
| "marker_shape buf pos Bin8 = map_option (\<lambda>n. (1 + n, 0)) (read_uint buf pos 1)"
| "marker_shape buf pos Str16 = map_option (\<lambda>n. (2 + n, 0)) (read_uint buf pos 2)"
| "marker_shape buf pos Bin16 = map_option (\<lambda>n. (2 + n, 0)) (read_uint buf pos 2)"
| "marker_shape buf pos Str32 = map_option (\<lambda>n. (4 + n, 0)) (read_uint buf pos 4)"
| "marker_shape buf pos Bin32 = map_option (\<lambda>n. (4 + n, 0)) (read_uint buf pos 4)"
| "marker_shape buf pos FixExt1 = Some (1 + 1, 0)"
| "marker_shape buf pos FixExt2 = Some (1 + 2, 0)"
| "marker_shape buf pos FixExt4 = Some (1 + 4, 0)"
| "marker_shape buf pos FixExt8 = Some (1 + 8, 0)"
| "marker_shape buf pos FixExt16 = Some (1 + 16, 0)"
| "marker_shape buf pos Ext8 = map_option (\<lambda>n. (1 + 1 + n, 0)) (read_uint buf pos 1)"
| "marker_shape buf pos Ext16 = map_option (\<lambda>n. (2 + 1 + n, 0)) (read_uint buf pos 2)"
| "marker_shape buf pos Ext32 = map_option (\<lambda>n. (4 + 1 + n, 0)) (read_uint buf pos 4)"
| "marker_shape buf pos (FixArray len) = Some (0, len)"
| "marker_shape buf pos Array16 = map_option (\<lambda>n. (2, n)) (read_uint buf pos 2)"
| "marker_shape buf pos Array32 = map_option (\<lambda>n. (4, n)) (read_uint buf pos 4)"
| "marker_shape buf pos (FixMap len) = map_option (\<lambda>c. (0, c)) (checked_mul usize_bits len 2)"
| "marker_shape buf pos Map16 =
    Option.bind (read_uint buf pos 2) (\<lambda>n. map_option (\<lambda>c. (2, c)) (checked_mul usize_bits n 2))"
| "marker_shape buf pos Map32 =
    Option.bind (read_uint buf pos 4) (\<lambda>n. map_option (\<lambda>c. (4, c)) (checked_mul usize_bits n 2))"
| "marker_shape buf pos Reserved = None"

text \<open>One iteration of the loop of \<^verbatim>\<open>skip_value\<close>, for \<open>pending > 0\<close>: the new position and count.\<close>

definition skip_step :: "(byte \<Rightarrow> Marker) \<Rightarrow> bytes \<Rightarrow> nat \<Rightarrow> nat \<Rightarrow> (nat \<times> nat) option" where
  "skip_step M buf pos pending =
    Option.bind (get_index buf pos) (\<lambda>b.
    Option.bind (checked_add usize_bits pos 1) (\<lambda>pos1.
    Option.bind (marker_shape buf pos1 (M b)) (\<lambda>(payload, children).
    Option.bind (checked_add usize_bits pos1 payload) (\<lambda>pos2.
      if length buf < pos2 then None
      else Option.bind (checked_add usize_bits (pending - 1) children) (\<lambda>pending'.
        if length buf - pos2 < pending' then None else Some (pos2, pending'))))))"

lemma skip_step_progress:
  "skip_step M buf pos pending = Some (p, q) \<Longrightarrow> pos < p \<and> p \<le> length buf \<and> q \<le> length buf - p"
  by (auto simp: skip_step_def checked_add_def split: Option.bind_splits if_splits prod.splits)

function skip_loop :: "(byte \<Rightarrow> Marker) \<Rightarrow> bytes \<Rightarrow> nat \<Rightarrow> nat \<Rightarrow> nat option" where
  "skip_loop M buf pos pending =
    (if pending = 0 then Some pos
     else case skip_step M buf pos pending of
       None \<Rightarrow> None
     | Some (p, q) \<Rightarrow> skip_loop M buf p q)"
  by pat_completeness auto
termination
  by (relation "measure (\<lambda>(M, buf, pos, pending). length buf - pos)")
    (auto dest!: skip_step_progress)

declare skip_loop.simps [simp del]

definition skip_value :: "(byte \<Rightarrow> Marker) \<Rightarrow> bytes \<Rightarrow> nat \<Rightarrow> nat option" where
  "skip_value M buf pos = skip_loop M buf pos 1"

definition read_str :: "(byte \<Rightarrow> Marker) \<Rightarrow> bytes \<Rightarrow> nat \<Rightarrow> nat \<Rightarrow> string option" where
  "read_str M buf start e =
    Option.bind (get_index buf start) (\<lambda>b.
    Option.bind (case M b of
        FixStr _ \<Rightarrow> Some (start + 1)
      | Str8 \<Rightarrow> Some (start + 2)
      | Str16 \<Rightarrow> Some (start + 3)
      | Str32 \<Rightarrow> Some (start + 5)
      | _ \<Rightarrow> None) (\<lambda>body.
    Option.bind (get_range buf body e) str_from_utf8))"

section \<open>Maps\<close>

record Field =
  f_name :: string
  f_raw :: bytes

fun split_fields :: "(byte \<Rightarrow> Marker) \<Rightarrow> bytes \<Rightarrow> nat \<Rightarrow> nat \<Rightarrow> (nat \<times> Field list) option" where
  "split_fields M buf pos 0 = Some (pos, [])"
| "split_fields M buf pos (Suc count) =
    Option.bind (skip_value M buf pos) (\<lambda>key_end.
    Option.bind (read_str M buf pos key_end) (\<lambda>name.
    Option.bind (skip_value M buf key_end) (\<lambda>pos'.
    Option.bind (get_range buf pos pos') (\<lambda>raw.
    Option.bind (split_fields M buf pos' count) (\<lambda>(e, fields).
      Some (e, \<lparr> f_name = name, f_raw = raw \<rparr> # fields))))))"

definition split_header :: "(byte \<Rightarrow> Marker) \<Rightarrow> bytes \<Rightarrow> (nat \<times> nat) option" where
  "split_header M buf =
    Option.bind (get_index buf 0) (\<lambda>b.
      case M b of
        FixMap n \<Rightarrow> Some (1, n)
      | Map16 \<Rightarrow> map_option (\<lambda>n. (3, n)) (read_uint buf 1 2)
      | Map32 \<Rightarrow> map_option (\<lambda>n. (5, n)) (read_uint buf 1 4)
      | _ \<Rightarrow> None)"

definition split_map :: "(byte \<Rightarrow> Marker) \<Rightarrow> bytes \<Rightarrow> (nat \<times> Field list) option" where
  "split_map M buf =
    Option.bind (split_header M buf) (\<lambda>(header_len, count).
    Option.bind (split_fields M buf header_len count) (\<lambda>(pos, fields).
      if pos = length buf then Some (header_len, fields) else None))"

definition write_map_header :: "nat \<Rightarrow> bytes option" where
  "write_map_header count =
    (if count \<le> 15 then Some [of_nat (128 + count)]
     else if count \<le> 65535 then Some (0xde # nat_be 2 count)
     else if count < 2 ^ 32 then Some (0xdf # nat_be 4 count)
     else None)"

section \<open>Reference: consuming the remaining bytes\<close>

lemma read_fold_Some:
  "256 ^ length bs * (a + 1) \<le> 2 ^ 64 \<Longrightarrow>
    foldl (\<lambda>acc b. Option.bind acc (\<lambda>a. Option.bind (checked_mul usize_bits a 256) (\<lambda>m.
        checked_add usize_bits m (unat (b :: byte))))) (Some a) bs =
    Some (foldl (\<lambda>acc b. acc * 256 + unat b) a bs)"
proof (induction bs arbitrary: a)
  case (Cons b bs)
  have "unat b + 1 \<le> 256" using byte_less [of b] by linarith
  then have le: "a * 256 + unat b + 1 \<le> 256 * (a + 1)" by simp
  have "256 ^ length bs * (a * 256 + unat b + 1) \<le> 256 ^ length bs * (256 * (a + 1))"
    using le by (rule mult_le_mono2)
  also have "\<dots> \<le> 2 ^ 64" using Cons.prems by (simp add: algebra_simps)
  finally have IH: "256 ^ length bs * (a * 256 + unat b + 1) \<le> 2 ^ 64" .
  have "1 * (a * 256 + unat b + 1) \<le> 256 ^ length bs * (a * 256 + unat b + 1)"
    by (rule mult_le_mono1) simp
  from order_trans [OF this IH] have "a * 256 + unat b < 2 ^ 64" by simp
  moreover from this have "a * 256 < 2 ^ 64" by linarith
  ultimately show ?case
    using Cons.IH [OF IH] by (simp add: checked_mul_def checked_add_def usize_bits_def)
qed simp

lemma read_uint_eq:
  assumes "sz \<le> 4"
  shows "read_uint buf pos sz =
    (if pos + sz < 2 ^ 64 \<and> pos + sz \<le> length buf then Some (be_nat (take sz (drop pos buf))) else None)"
proof (cases "pos + sz < 2 ^ 64 \<and> pos + sz \<le> length buf")
  case True
  then have "length (take sz (drop pos buf)) = sz" by auto
  moreover have "(256::nat) ^ sz \<le> 256 ^ 4" using assms by (rule power_increasing) simp
  ultimately have "256 ^ length (take sz (drop pos buf)) * (0 + 1) \<le> (2 ^ 64 :: nat)" by simp
  from read_fold_Some [OF this] show ?thesis
    using True by (simp add: read_uint_def checked_add_def usize_bits_def get_range_def be_nat_def)
next
  case False
  then show ?thesis
    by (auto simp: read_uint_def checked_add_def usize_bits_def get_range_def split: Option.bind_splits)
qed

lemma read_uint_drop:
  "sz \<le> 4 \<Longrightarrow> length buf < 2 ^ 64 \<Longrightarrow> pos \<le> length buf \<Longrightarrow>
    read_uint buf pos sz = read_uint (drop pos buf) 0 sz"
  by (auto simp: read_uint_eq)

lemma marker_shape_drop:
  "length buf < 2 ^ 64 \<Longrightarrow> pos \<le> length buf \<Longrightarrow> marker_shape buf pos m = marker_shape (drop pos buf) 0 m"
  by (cases m) (simp_all add: read_uint_drop [of _ buf pos])

lemma read_uint_local:
  "sz \<le> 4 \<Longrightarrow> sz \<le> k \<Longrightarrow> k \<le> length r \<Longrightarrow> read_uint (take k r @ s) 0 sz = read_uint r 0 sz"
  by (simp add: read_uint_eq min_def)

lemma marker_shape_local:
  "marker_shape r 0 m = Some (payload, children) \<Longrightarrow> payload \<le> k \<Longrightarrow> k \<le> length r \<Longrightarrow>
    marker_shape (take k r @ s) 0 m = Some (payload, children)"
  by (cases m) (auto simp: read_uint_local split: Option.bind_splits)

function skip_bytes :: "(byte \<Rightarrow> Marker) \<Rightarrow> bytes \<Rightarrow> nat \<Rightarrow> nat option" where
  "skip_bytes M bs pending =
    (if pending = 0 then Some 0
     else case bs of
       [] \<Rightarrow> None
     | b # r \<Rightarrow>
        (case marker_shape r 0 (M b) of
           None \<Rightarrow> None
         | Some (payload, children) \<Rightarrow>
            if length r < payload \<or> length r - payload < pending - 1 + children then None
            else map_option (\<lambda>n. n + 1 + payload)
              (skip_bytes M (drop payload r) (pending - 1 + children))))"
  by pat_completeness auto
termination
  by (relation "measure (\<lambda>(M, bs, pending). length bs)") auto

declare skip_bytes.simps [simp del]

lemma skip_step_bytes:
  assumes "length buf < 2 ^ 64" "pos \<le> length buf" "pending > 0"
  shows "skip_step M buf pos pending =
    (case drop pos buf of
       [] \<Rightarrow> None
     | b # r \<Rightarrow>
        (case marker_shape r 0 (M b) of
           None \<Rightarrow> None
         | Some (payload, children) \<Rightarrow>
            if length r < payload \<or> length r - payload < pending - 1 + children then None
            else Some (pos + 1 + payload, pending - 1 + children)))"
proof (cases "drop pos buf")
  case Nil
  then show ?thesis using assms by (simp add: skip_step_def get_index_def)
next
  case (Cons b r)
  have pos: "pos < length buf"
  proof (rule ccontr)
    assume "\<not> pos < length buf"
    then show False using Cons by simp
  qed
  have b: "buf ! pos = b" and r: "drop (pos + 1) buf = r"
    using Cons pos by (simp_all add: Cons_nth_drop_Suc [OF pos, symmetric])
  have len: "length r = length buf - (pos + 1)" using r by (metis length_drop)
  have shape: "marker_shape buf (pos + 1) (M b) = marker_shape r 0 (M b)"
    using marker_shape_drop [of buf "pos + 1" "M b"] assms pos r by simp
  show ?thesis
  proof (cases "marker_shape r 0 (M b)")
    case None
    then show ?thesis
      using Cons pos b shape by (simp add: skip_step_def get_index_def checked_add_def)
  next
    case (Some pc)
    obtain payload children where pc: "pc = (payload, children)" by (cases pc)
    have "length buf < pos + 1 + payload \<longleftrightarrow> length r < payload"
      "length buf - (pos + 1 + payload) = length r - payload"
      using len pos by linarith+
    moreover have "pos + 1 + payload < 2 ^ 64" if "\<not> length r < payload"
      using that len pos assms(1) by linarith
    moreover have "pending - 1 + children < 2 ^ 64" if "\<not> length r - payload < pending - 1 + children"
      using that len assms(1) by linarith
    moreover have "pos + 1 < 2 ^ 64" using pos assms(1) by linarith
    ultimately show ?thesis
      using Cons pos b shape Some pc
      by (auto simp: skip_step_def get_index_def checked_add_def usize_bits_def)
  qed
qed


lemma skip_step_SomeE:
  assumes "length buf < 2 ^ 64" "pos \<le> length buf" "pending > 0"
    and "skip_step M buf pos pending = Some (p, q)"
  obtains b r payload children where "drop pos buf = b # r"
    "marker_shape r 0 (M b) = Some (payload, children)"
    "\<not> (length r < payload \<or> length r - payload < pending - 1 + children)"
    "p = pos + 1 + payload" "q = pending - 1 + children"
proof (cases "drop pos buf")
  case Nil
  then show thesis using assms(4) skip_step_bytes [OF assms(1-3), of M] by simp
next
  case (Cons b r)
  have e: "(case marker_shape r 0 (M b) of
           None \<Rightarrow> None
         | Some (payload, children) \<Rightarrow>
            if length r < payload \<or> length r - payload < pending - 1 + children then None
            else Some (pos + 1 + payload, pending - 1 + children)) = Some (p, q)"
    using assms(4) skip_step_bytes [OF assms(1-3), of M] unfolding Cons list.case by (rule trans [OF sym, rotated])
  show thesis
  proof (cases "marker_shape r 0 (M b)")
    case None
    then show thesis using e by simp
  next
    case (Some pc)
    obtain payload children where pc: "pc = (payload, children)" by (cases pc)
    with Some e show thesis
      by (intro that [OF Cons, of payload children]) (auto split: if_splits)
  qed
qed
lemma skip_bytes_step:
  assumes "pending > 0" "marker_shape r 0 (M b) = Some (payload, children)"
    "\<not> (length r < payload \<or> length r - payload < pending - 1 + children)"
  shows "skip_bytes M (b # r) pending =
    map_option (\<lambda>n. n + 1 + payload) (skip_bytes M (drop payload r) (pending - 1 + children))"
  using assms by (subst skip_bytes.simps) simp

lemma skip_bytes_stepE:
  assumes "skip_bytes M bs pending = Some n" "pending > 0"
  obtains b r payload children k where "bs = b # r"
    "marker_shape r 0 (M b) = Some (payload, children)"
    "\<not> (length r < payload \<or> length r - payload < pending - 1 + children)"
    "skip_bytes M (drop payload r) (pending - 1 + children) = Some k" "n = k + 1 + payload"
proof (cases bs)
  case Nil
  then show thesis using assms by (simp add: skip_bytes.simps)
next
  case (Cons b r)
  note e = assms(1) [unfolded Cons, unfolded skip_bytes.simps [of M "b # r"]]
  show thesis
  proof (cases "marker_shape r 0 (M b)")
    case None
    then show thesis using e assms(2) by simp
  next
    case (Some pc)
    obtain payload children where pc: "pc = (payload, children)" by (cases pc)
    have c: "\<not> (length r < payload \<or> length r - payload < pending - 1 + children)"
      using e assms(2) Some pc by (auto split: if_splits)
    then have "skip_bytes M (b # r) pending =
        map_option (\<lambda>n. n + 1 + payload) (skip_bytes M (drop payload r) (pending - 1 + children))"
      using assms(2) Some pc by (intro skip_bytes_step) simp_all
    then obtain k where "skip_bytes M (drop payload r) (pending - 1 + children) = Some k" "n = k + 1 + payload"
      using assms(1) Cons by auto
    then show thesis using that [OF Cons] Some pc c by simp
  qed
qed

lemma skip_step_None:
  assumes "length buf < 2 ^ 64" "pos \<le> length buf" "pending > 0" "skip_step M buf pos pending = None"
  shows "skip_bytes M (drop pos buf) pending = None"
proof (rule ccontr)
  assume "skip_bytes M (drop pos buf) pending \<noteq> None"
  then obtain n where "skip_bytes M (drop pos buf) pending = Some n" by auto
  then obtain b r payload children where "drop pos buf = b # r"
    "marker_shape r 0 (M b) = Some (payload, children)"
    "\<not> (length r < payload \<or> length r - payload < pending - 1 + children)"
    using assms(3) by (rule skip_bytes_stepE)
  then have "skip_step M buf pos pending \<noteq> None"
    by (simp only: skip_step_bytes [OF assms(1-3)] list.case option.case prod.case if_False option.distinct)
      simp
  then show False using assms(4) by simp
qed

lemma skip_loop_eq:
  "length buf < 2 ^ 64 \<Longrightarrow> pos \<le> length buf \<Longrightarrow>
    skip_loop M buf pos pending = map_option (\<lambda>n. pos + n) (skip_bytes M (drop pos buf) pending)"
proof (induction M buf pos pending rule: skip_loop.induct)
  case (1 M buf pos pending)
  consider "pending = 0" | "pending > 0" "skip_step M buf pos pending = None"
    | p q where "pending > 0" "skip_step M buf pos pending = Some (p, q)"
    by (cases "skip_step M buf pos pending") auto
  then show ?case
  proof cases
    case 1
    then show ?thesis by (simp add: skip_loop.simps skip_bytes.simps)
  next
    case 2
    then show ?thesis
      by (simp add: skip_loop.simps skip_step_None [OF "1.prems"])
  next
    case 3
    obtain b r payload children where br: "drop pos buf = b # r"
      and sh: "marker_shape r 0 (M b) = Some (payload, children)"
        "\<not> (length r < payload \<or> length r - payload < pending - 1 + children)"
      and p: "p = pos + 1 + payload" and q: "q = pending - 1 + children"
      using "1.prems" 3 by (rule skip_step_SomeE)
    have "p \<le> length buf" using skip_step_progress [OF 3(2)] by simp
    then have IH: "skip_loop M buf p q = map_option (\<lambda>n. p + n) (skip_bytes M (drop p buf) q)"
      using "1.IH" [OF _ 3(2)] 3(1) "1.prems"(1) by simp
    have "drop (payload + (1 + pos)) buf = drop payload (drop 1 (drop pos buf))" by simp
    then have "drop p buf = drop payload r" using br p by (simp add: ac_simps)
    then have "skip_bytes M (drop pos buf) pending = map_option (\<lambda>n. n + 1 + payload) (skip_bytes M (drop p buf) q)"
      using skip_bytes_step [of pending r M b payload children] 3(1) sh br q by simp
    then show ?thesis
      using 3 IH p by (subst skip_loop.simps) (simp add: option.map_comp o_def ac_simps)
  qed
qed

lemma skip_bytes_local:
  "skip_bytes M bs pending = Some n \<Longrightarrow>
    n \<le> length bs \<and> pending \<le> n \<and> (\<forall>s. skip_bytes M (take n bs @ s) pending = Some n)"
proof (induction "length bs" arbitrary: bs pending n rule: less_induct)
  case less
  show ?case
  proof (cases "pending = 0")
    case True
    then show ?thesis using less.prems by (simp add: skip_bytes.simps)
  next
    case False
    then have pos: "pending > 0" by simp
    obtain b r payload children k where bs: "bs = b # r"
      and sh: "marker_shape r 0 (M b) = Some (payload, children)"
        "\<not> (length r < payload \<or> length r - payload < pending - 1 + children)"
      and k: "skip_bytes M (drop payload r) (pending - 1 + children) = Some k" "n = k + 1 + payload"
      using less.prems pos by (rule skip_bytes_stepE)
    have IH: "k \<le> length (drop payload r)" "pending - 1 + children \<le> k"
      "\<And>s. skip_bytes M (take k (drop payload r) @ s) (pending - 1 + children) = Some k"
      using less.hyps [OF _ k(1)] bs by auto
    have len: "k + payload \<le> length r" using IH(1) sh(2) by auto
    have "skip_bytes M (take n bs @ s) pending = Some n" for s
    proof -
      let ?r = "take (k + payload) r @ s"
      have "marker_shape ?r 0 (M b) = Some (payload, children)"
        using sh(1) len by (intro marker_shape_local) auto
      moreover have "\<not> (length ?r < payload \<or> length ?r - payload < pending - 1 + children)"
        using len IH(2) by (simp add: min_def)
      moreover have "drop payload ?r = take k (drop payload r) @ s"
        using len by (simp add: drop_take add.commute)
      moreover have "take n bs @ s = b # ?r"
        using bs k(2) by simp
      ultimately show ?thesis
        using skip_bytes_step [of pending ?r M b payload children] pos IH(3) k(2) by simp
    qed
    then show ?thesis
      using k(2) IH(2) len bs pos by auto
  qed
qed

section \<open>Fields of a map\<close>

definition is_value :: "(byte \<Rightarrow> Marker) \<Rightarrow> bytes \<Rightarrow> bool" where
  "is_value M v = (skip_bytes M v 1 = Some (length v))"

lemma is_value_nonempty: "is_value M v \<Longrightarrow> v \<noteq> []"
  by (auto simp: is_value_def skip_bytes.simps)

lemma skip_value_embed:
  assumes "is_value M v" "length (A @ v @ B) < 2 ^ 64"
  shows "skip_value M (A @ v @ B) (length A) = Some (length A + length v)"
proof -
  have "skip_bytes M (v @ B) 1 = Some (length v)"
    using skip_bytes_local assms(1) unfolding is_value_def by (metis order_refl take_all)
  then show ?thesis
    using skip_loop_eq [of "A @ v @ B" "length A"] assms(2) by (simp add: skip_value_def)
qed

lemma skip_value_slice:
  assumes "skip_value M buf pos = Some p" "length buf < 2 ^ 64" "pos \<le> length buf"
  shows "pos < p \<and> p \<le> length buf \<and> is_value M (take (p - pos) (drop pos buf))"
proof -
  obtain n where n: "skip_bytes M (drop pos buf) 1 = Some n" "p = pos + n"
    using assms skip_loop_eq [OF assms(2,3), of M 1]
    by (cases "skip_bytes M (drop pos buf) 1") (auto simp: skip_value_def)
  then have "n \<le> length (drop pos buf)" "1 \<le> n" "skip_bytes M (take n (drop pos buf) @ []) 1 = Some n"
    using skip_bytes_local by blast+
  then show ?thesis
    using n(2) assms(3) by (simp add: is_value_def min_def)
qed

definition key_name :: "(byte \<Rightarrow> Marker) \<Rightarrow> bytes \<Rightarrow> string option" where
  "key_name M k = read_str M k 0 (length k)"

lemma get_range_embed:
  "c \<le> length k \<Longrightarrow> get_range (A @ k @ B) (length A + c) (length A + length k) = get_range k c (length k)"
  by (simp add: get_range_def)

lemma read_str_embed:
  assumes "is_value M k"
  shows "read_str M (A @ k @ B) (length A) (length A + length k) = key_name M k"
proof -
  have ne: "k \<noteq> []" using assms by (rule is_value_nonempty)
  have "get_range (A @ k @ B) (length A + c) (length A + length k) = get_range k c (length k)" for c
    by (cases "c \<le> length k") (auto simp: get_range_embed, simp add: get_range_def)
  from this [of 1] this [of 2] this [of 3] this [of 5] show ?thesis
    using ne by (simp add: read_str_def key_name_def get_index_def nth_append numeral_2_eq_2 split: Marker.splits)
qed

definition field_ok :: "(byte \<Rightarrow> Marker) \<Rightarrow> Field \<Rightarrow> bool" where
  "field_ok M f = (\<exists>k v. f_raw f = k @ v \<and> is_value M k \<and> is_value M v \<and> key_name M k = Some (f_name f))"

lemma split_fields_embed:
  assumes "\<And>f. f \<in> set fs \<Longrightarrow> field_ok M f" "length (A @ concat (map f_raw fs) @ B) < 2 ^ 64"
  shows "split_fields M (A @ concat (map f_raw fs) @ B) (length A) (length fs) =
    Some (length A + length (concat (map f_raw fs)), fs)"
  using assms
proof (induction fs arbitrary: A)
  case (Cons f fs)
  obtain k v where f: "f_raw f = k @ v" "is_value M k" "is_value M v" "key_name M k = Some (f_name f)"
    using Cons.prems(1) [of f] by (auto simp: field_ok_def)
  let ?R = "concat (map f_raw fs) @ B"
  let ?buf = "A @ concat (map f_raw (f # fs)) @ B"
  have buf: "?buf = A @ k @ (v @ ?R)" "?buf = (A @ k) @ v @ ?R" "?buf = (A @ k @ v) @ ?R"
    using f(1) by simp_all
  have 1: "skip_value M ?buf (length A) = Some (length A + length k)"
    using skip_value_embed [OF f(2)] Cons.prems(2) unfolding buf(1) .
  have 2: "read_str M ?buf (length A) (length A + length k) = Some (f_name f)"
    unfolding buf(1) read_str_embed [OF f(2)] by (rule f(4))
  have 3: "skip_value M ?buf (length A + length k) = Some (length A + length k + length v)"
    using skip_value_embed [OF f(3), of "A @ k"] Cons.prems(2) unfolding buf(2) by simp
  have 4: "get_range ?buf (length A) (length A + length k + length v) = Some (f_raw f)"
    using f(1) by (simp add: get_range_def)
  have 5: "split_fields M ?buf (length (A @ k @ v)) (length fs) =
      Some (length (A @ k @ v) + length (concat (map f_raw fs)), fs)"
    using Cons.IH [of "A @ k @ v"] Cons.prems unfolding buf(3) by simp
  show ?case
    using 1 2 3 4 5 f(1) by (simp add: add.assoc)
qed simp

lemma split_fields_slice:
  assumes "split_fields M buf pos count = Some (e, fs)" "length buf < 2 ^ 64" "pos \<le> length buf"
  shows "length fs = count \<and> pos \<le> e \<and> e \<le> length buf \<and>
    concat (map f_raw fs) = take (e - pos) (drop pos buf) \<and> (\<forall>f \<in> set fs. field_ok M f)"
  using assms
proof (induction M buf pos count arbitrary: e fs rule: split_fields.induct)
  case (2 M buf pos count)
  obtain key_end name p raw fs' where step: "skip_value M buf pos = Some key_end"
    "read_str M buf pos key_end = Some name" "skip_value M buf key_end = Some p"
    "get_range buf pos p = Some raw" "split_fields M buf p count = Some (e, fs')"
    "fs = \<lparr> f_name = name, f_raw = raw \<rparr> # fs'"
    using "2.prems"(1) by (auto split: Option.bind_splits)
  have k: "pos < key_end" "key_end \<le> length buf" "is_value M (take (key_end - pos) (drop pos buf))"
    using skip_value_slice [OF step(1) "2.prems"(2,3)] by auto
  have v: "key_end < p" "p \<le> length buf" "is_value M (take (p - key_end) (drop key_end buf))"
    using skip_value_slice [OF step(3) "2.prems"(2) k(2)] by auto
  have IH: "length fs' = count" "p \<le> e" "e \<le> length buf"
      "concat (map f_raw fs') = take (e - p) (drop p buf)" "\<forall>f \<in> set fs'. field_ok M f"
    using "2.IH" [OF step(1,2,3,4) step(5) "2.prems"(2) v(2)] by auto
  let ?k = "take (key_end - pos) (drop pos buf)"
  let ?v = "take (p - key_end) (drop key_end buf)"
  have raw': "raw = take (p - pos) (drop pos buf)"
    using step(4) by (simp add: get_range_def split: if_splits)
  then have raw: "raw = ?k @ ?v"
    using take_drop_split [of pos key_end p buf] k v by simp
  have "buf = take pos buf @ ?k @ drop key_end buf"
    using k by (metis append_take_drop_id drop_drop le_add_diff_inverse2 less_imp_le)
  moreover have "length ?k = key_end - pos" "length (take pos buf) = pos" "pos + (key_end - pos) = key_end"
    using k by auto
  ultimately have "read_str M buf pos key_end = key_name M ?k"
    using read_str_embed [OF k(3), of "take pos buf" "drop key_end buf"] by metis
  then have "field_ok M \<lparr> f_name = name, f_raw = raw \<rparr>"
    unfolding field_ok_def using raw k(3) v(3) step(2) by auto
  moreover have "concat (map f_raw fs) = take (e - pos) (drop pos buf)"
    using take_drop_split [of pos p e buf] raw' step(6) IH(2,4) k v by simp
  ultimately show ?case
    using IH step(6) k v by auto
qed simp

end
