(* ===== verification/Kv_Compat.thy ===== *)
theory Kv_Compat
  imports Msgpack_Walk
begin

text \<open>
  The rolling-upgrade layer of the key-value store (\<^verbatim>\<open>gateway/src/kv/compat.rs\<close>): the fields of
  the stored record that this build does not declare are appended to the outgoing encoding.
  Whether the merged bytes decode as the record type is the parameter \<open>dec\<close>
  (\<^verbatim>\<open>rmp_serde\<close>); the field list the record type declares is the parameter \<open>declared\<close>.
\<close>

section \<open>Carrying unknown fields\<close>

definition carried_fields :: "string list \<Rightarrow> Field list \<Rightarrow> Field list \<Rightarrow> Field list" where
  "carried_fields declared stored_fields encoded_fields =
    filter (\<lambda>f. f_name f \<notin> set declared \<and> \<not> list_ex (\<lambda>out. f_name out = f_name f) encoded_fields)
      stored_fields"

definition carry_unknown_fields ::
  "(byte \<Rightarrow> Marker) \<Rightarrow> (bytes \<Rightarrow> bool) \<Rightarrow> string list \<Rightarrow> bytes \<Rightarrow> bytes \<Rightarrow> bytes" where
  "carry_unknown_fields M dec declared stored encoded =
    (case split_map M stored of
       None \<Rightarrow> encoded
     | Some (_, stored_fields) \<Rightarrow>
        if list_all (\<lambda>f. f_name f \<in> set declared) stored_fields then encoded
        else (case split_map M encoded of
          None \<Rightarrow> encoded
        | Some (header_len, encoded_fields) \<Rightarrow>
           (let carried = carried_fields declared stored_fields encoded_fields in
            if carried = [] then encoded
            else (case write_map_header (length encoded_fields + length carried) of
               None \<Rightarrow> encoded
             | Some hdr \<Rightarrow>
                (let out = hdr @ drop header_len encoded @ concat (map f_raw carried)
                 in if dec out then out else encoded)))))"

section \<open>Correctness of the merge\<close>

text \<open>What the merge relies on of \<^verbatim>\<open>rmp::Marker::from_u8\<close>: the three map markers it writes.\<close>

definition map_markers :: "(byte \<Rightarrow> Marker) \<Rightarrow> bool" where
  "map_markers M = ((\<forall>n \<le> 15. M (of_nat (128 + n)) = FixMap n) \<and> M 0xde = Map16 \<and> M 0xdf = Map32)"

lemma read_uint_nat_be:
  assumes "n < 256 ^ sz" "sz \<le> 4"
  shows "read_uint (b # nat_be sz n @ r) 1 sz = Some n"
proof -
  have "(1::nat) + sz < 2 ^ 64" using assms(2) by simp
  then show ?thesis
    using assms by (simp add: read_uint_eq be_nat_nat_be)
qed

lemma split_header_write:
  assumes "map_markers M" "write_map_header count = Some hdr"
  shows "split_header M (hdr @ r) = Some (length hdr, count)"
proof -
  have 2: "read_uint (b # nat_be 2 count @ r) 1 2 = Some count" if "count \<le> 65535" for b
    using that by (intro read_uint_nat_be) simp_all
  have 4: "read_uint (b # nat_be 4 count @ r) 1 4 = Some count" if "count < 2 ^ 32" for b
    using that by (intro read_uint_nat_be) simp_all
  show ?thesis
    using assms 2 4
    by (auto simp: write_map_header_def map_markers_def split_header_def get_index_def split: if_splits)
qed

lemma split_header_le:
  "split_header M buf = Some (h, n) \<Longrightarrow> h \<le> length buf"
  by (auto simp: split_header_def get_index_def read_uint_eq Suc_le_eq
      split: Option.bind_splits Marker.splits if_splits)

lemma split_map_concat:
  assumes "map_markers M" "\<And>f. f \<in> set fs \<Longrightarrow> field_ok M f" "write_map_header (length fs) = Some hdr"
    "length (hdr @ concat (map f_raw fs)) < 2 ^ 64"
  shows "split_map M (hdr @ concat (map f_raw fs)) = Some (length hdr, fs)"
  using split_header_write [OF assms(1,3)] split_fields_embed [OF assms(2), where A = hdr and B = "[]"]
    assms(4) by (simp add: split_map_def)

lemma split_map_slice:
  assumes "split_map M buf = Some (h, fs)" "length buf < 2 ^ 64"
  shows "h \<le> length buf \<and> drop h buf = concat (map f_raw fs) \<and> (\<forall>f \<in> set fs. field_ok M f)"
proof -
  obtain n where h: "split_header M buf = Some (h, n)" "split_fields M buf h n = Some (length buf, fs)"
    using assms(1) by (auto simp: split_map_def split: Option.bind_splits if_splits)
  then show ?thesis
    using split_fields_slice [OF h(2) assms(2)] split_header_le [OF h(1)] by simp
qed

lemma write_map_header_len: "write_map_header n = Some hdr \<Longrightarrow> length hdr \<le> 5"
  by (auto simp: write_map_header_def split: if_splits)

lemma write_map_header_some: "n < 2 ^ 32 \<Longrightarrow> \<exists>hdr. write_map_header n = Some hdr"
  by (simp add: write_map_header_def)

lemma length_concat_filter_le: "length (concat (map f (filter P xs))) \<le> length (concat (map f xs))"
  by (induction xs) auto

lemma merged_split:
  assumes "map_markers M" "split_map M stored = Some (h, sf)" "split_map M encoded = Some (h', ef)"
    "length stored + length encoded + 5 < 2 ^ 64"
    "write_map_header (length ef + length (carried_fields declared sf ef)) = Some hdr"
  shows "split_map M (hdr @ drop h' encoded @ concat (map f_raw (carried_fields declared sf ef))) =
    Some (length hdr, ef @ carried_fields declared sf ef)"
proof -
  let ?c = "carried_fields declared sf ef"
  have s: "drop h stored = concat (map f_raw sf)" "\<forall>f \<in> set sf. field_ok M f"
    using split_map_slice [OF assms(2)] assms(4) by auto
  have e: "drop h' encoded = concat (map f_raw ef)" "\<forall>f \<in> set ef. field_ok M f"
    using split_map_slice [OF assms(3)] assms(4) by auto
  have "length (concat (map f_raw ?c)) \<le> length (drop h stored)"
    unfolding s(1) carried_fields_def by (rule length_concat_filter_le)
  moreover have "length (concat (map f_raw ef)) \<le> length encoded"
    using arg_cong [OF e(1), of length] by simp
  ultimately have "length (hdr @ concat (map f_raw (ef @ ?c))) < 2 ^ 64"
    using write_map_header_len [OF assms(5)] assms(4) by simp
  moreover have "\<And>f. f \<in> set (ef @ ?c) \<Longrightarrow> field_ok M f"
    using s(2) e(2) by (auto simp: carried_fields_def)
  moreover have "write_map_header (length (ef @ ?c)) = Some hdr"
    using assms(5) by simp
  ultimately have "split_map M (hdr @ concat (map f_raw (ef @ ?c))) = Some (length hdr, ef @ ?c)"
    using assms(1) by (intro split_map_concat)
  then show ?thesis using e(1) by simp
qed

lemma carried_fields_declared: "list_all (\<lambda>f. f_name f \<in> set declared) sf \<Longrightarrow> carried_fields declared sf ef = []"
  by (auto simp: carried_fields_def list_all_iff filter_empty_conv)

lemma carry_unfold:
  assumes "split_map M stored = Some (h, sf)" "split_map M encoded = Some (h', ef)"
    "carried_fields declared sf ef \<noteq> []"
    "write_map_header (length ef + length (carried_fields declared sf ef)) = Some hdr"
  shows "carry_unknown_fields M dec declared stored encoded =
    (let out = hdr @ drop h' encoded @ concat (map f_raw (carried_fields declared sf ef))
     in if dec out then out else encoded)"
  using assms carried_fields_declared [of declared sf ef]
  by (auto simp: carry_unknown_fields_def Let_def)

lemma carry_unchanged:
  "carried_fields declared sf ef = [] \<Longrightarrow> split_map M stored = Some (h, sf) \<Longrightarrow>
    split_map M encoded = Some (h', ef) \<Longrightarrow> carry_unknown_fields M dec declared stored encoded = encoded"
  by (simp add: carry_unknown_fields_def)

section \<open>The MessagePack markers\<close>

definition msgpack_marker :: "byte \<Rightarrow> Marker" where
  "msgpack_marker b =
    (let n = unat b in
     if n < 128 then FixPos n
     else if n < 144 then FixMap (n - 128)
     else if n < 160 then FixArray (n - 144)
     else if n < 192 then FixStr (n - 160)
     else if n < 224 then
       [MNull, Reserved, MFalse, MTrue, Bin8, Bin16, Bin32, Ext8, Ext16, Ext32, MF32, MF64,
        MU8, MU16, MU32, MU64, MI8, MI16, MI32, MI64, FixExt1, FixExt2, FixExt4, FixExt8, FixExt16,
        Str8, Str16, Str32, Array16, Array32, Map16, Map32] ! (n - 192)
     else FixNeg (n - 224))"

lemma map_markers_msgpack: "map_markers msgpack_marker"
proof -
  have "msgpack_marker (of_nat (128 + n)) = FixMap n" if "n \<le> 15" for n
  proof -
    have "unat (of_nat (128 + n) :: byte) = 128 + n"
      using that by (subst unat_of_nat) simp
    then show ?thesis
      using that unfolding msgpack_marker_def by (simp only: Let_def) simp
  qed
  then show ?thesis
    by (simp add: map_markers_def) (simp add: msgpack_marker_def)
qed

text \<open>A stored map \<open>{a: 1, b: 2}\<close> and an outgoing map \<open>{a: 7}\<close>.\<close>

definition demo_stored :: bytes where "demo_stored = [0x82, 0xa1, 0x61, 1, 0xa1, 0x62, 2]"
definition demo_encoded :: bytes where "demo_encoded = [0x81, 0xa1, 0x61, 7]"

lemma demo_split:
  "split_map msgpack_marker demo_stored =
    Some (1, [\<lparr> f_name = ''a'', f_raw = [0xa1, 0x61, 1] \<rparr>, \<lparr> f_name = ''b'', f_raw = [0xa1, 0x62, 2] \<rparr>])"
  "split_map msgpack_marker demo_encoded = Some (1, [\<lparr> f_name = ''a'', f_raw = [0xa1, 0x61, 7] \<rparr>])"
  by code_simp+

section \<open>Properties\<close>



text \<open>
  C27. When the record type tolerates extra fields, the written record consists of exactly the
  fields this build encoded followed by the stored fields it neither declares nor wrote: an older
  build loses nothing a newer one stored, and resurrects nothing it cleared.
\<close>

theorem carry_unknown_fields_merge:
  assumes "map_markers M" "split_map M stored = Some (h, sf)" "split_map M encoded = Some (h', ef)"
    "length stored + length encoded + 5 < 2 ^ 64" "length ef + length sf < 2 ^ 32"
    and tolerant: "\<And>out k. split_map M out = Some (k, ef @ carried_fields declared sf ef) \<Longrightarrow> dec out"
  shows "\<exists>k. split_map M (carry_unknown_fields M dec declared stored encoded) =
    Some (k, ef @ carried_fields declared sf ef)"
proof (cases "carried_fields declared sf ef = []")
  case True
  then show ?thesis using carry_unchanged [OF True assms(2,3)] assms(3) by simp
next
  case False
  have "length (carried_fields declared sf ef) \<le> length sf"
    by (simp add: carried_fields_def)
  then obtain hdr where hdr: "write_map_header (length ef + length (carried_fields declared sf ef)) = Some hdr"
    using assms(5) write_map_header_some by (metis add_le_cancel_left le_less_trans)
  show ?thesis
    using merged_split [OF assms(1-4) hdr] carry_unfold [OF assms(2,3) False hdr, of dec] tolerant
    by (auto simp: Let_def)
qed

theorem carry_unknown_fields_merge_witness:
  "\<exists>k. split_map msgpack_marker
      (carry_unknown_fields msgpack_marker (\<lambda>_. True) [''a''] demo_stored demo_encoded) =
    Some (k, [\<lparr> f_name = ''a'', f_raw = [0xa1, 0x61, 7] \<rparr>, \<lparr> f_name = ''b'', f_raw = [0xa1, 0x62, 2] \<rparr>])"
  using carry_unknown_fields_merge [OF map_markers_msgpack demo_split(1) demo_split(2), of "[''a'']" "\<lambda>_. True"]
  by (simp add: demo_stored_def demo_encoded_def carried_fields_def)

text \<open>
  C28. Whatever the stored bytes are, the record written is one this build can read back whenever
  its own encoding is.
\<close>

theorem carry_unknown_fields_readable:
  "dec encoded \<Longrightarrow> dec (carry_unknown_fields M dec declared stored encoded)"
  by (simp add: carry_unknown_fields_def Let_def split: option.splits prod.splits)

theorem carry_unknown_fields_readable_witness:
  "(\<lambda>bs. length bs < 5) (carry_unknown_fields msgpack_marker (\<lambda>bs. length bs < 5) [''a''] demo_stored demo_encoded)"
  using carry_unknown_fields_readable [of "\<lambda>bs. length bs < 5" demo_encoded msgpack_marker "[''a'']" demo_stored]
  by (simp add: demo_encoded_def)

end
