(* ===== verification/Gateway_Kv.thy ===== *)
theory Gateway_Kv
  imports Gateway_Import Kv_Compat
begin

text \<open>
  The gateway's replicated store (\<^verbatim>\<open>gateway/src/kv/mod.rs\<close>): the key schema, the typed reads and
  writes, and the operations on instances, operator overrides, nodes, observations and peers.
  The crate \<^verbatim>\<open>wavekv\<close> is not part of the repository: a node's state is an arbitrary type \<open>'s\<close> and
  its operations are the fields of \<open>'s wave\<close>; a write returns its result and the new state.
  \<^verbatim>\<open>rmp_serde\<close> encoding and decoding of a record type are the fields of a \<open>codec\<close>.
  An error is the list of its context messages, outermost first.
\<close>

section \<open>Keys\<close>

type_synonym node_id = nat

definition INST_PREFIX :: string where "INST_PREFIX = ''inst/''"
definition ADMIN_PREFIX :: string where "ADMIN_PREFIX = ''admin/''"
definition ADMIN_READY :: string where "ADMIN_READY = ''ready''"
definition ADMIN_PORT_POLICY :: string where "ADMIN_PORT_POLICY = ''port_policy''"
definition NODE_PREFIX :: string where "NODE_PREFIX = ''node/''"
definition NODE_INFO_PREFIX :: string where "NODE_INFO_PREFIX = ''node/info/''"
definition NODE_STATUS_PREFIX :: string where "NODE_STATUS_PREFIX = ''node/status/''"
definition CONN_PREFIX :: string where "CONN_PREFIX = ''conn/''"
definition HANDSHAKE_PREFIX :: string where "HANDSHAKE_PREFIX = ''handshake/''"
definition LAST_SEEN_NODE_PREFIX :: string where "LAST_SEEN_NODE_PREFIX = ''last_seen/node/''"
definition PEER_ADDR_PREFIX :: string where "PEER_ADDR_PREFIX = ''__peer_addr/''"
definition PEER_REMOVED_PREFIX :: string where "PEER_REMOVED_PREFIX = ''__peer_removed/''"
definition CERT_PREFIX :: string where "CERT_PREFIX = ''cert/''"
definition GLOBAL_TOMBSTONE_GC_CONFIG :: string where
  "GLOBAL_TOMBSTONE_GC_CONFIG = ''global/tombstone_gc_config''"

lemmas key_prefix_defs = INST_PREFIX_def ADMIN_PREFIX_def ADMIN_READY_def ADMIN_PORT_POLICY_def
  NODE_PREFIX_def NODE_INFO_PREFIX_def NODE_STATUS_PREFIX_def CONN_PREFIX_def HANDSHAKE_PREFIX_def
  LAST_SEEN_NODE_PREFIX_def PEER_ADDR_PREFIX_def PEER_REMOVED_PREFIX_def CERT_PREFIX_def

definition inst_key :: "string \<Rightarrow> string" where
  "inst_key instance_id = INST_PREFIX @ instance_id"

definition admin_ready_key :: "string \<Rightarrow> string" where
  "admin_ready_key instance_id = ADMIN_PREFIX @ instance_id @ ''/'' @ ADMIN_READY"

definition admin_port_policy_key :: "string \<Rightarrow> string" where
  "admin_port_policy_key instance_id = ADMIN_PREFIX @ instance_id @ ''/'' @ ADMIN_PORT_POLICY"

definition node_info_key :: "node_id \<Rightarrow> string" where
  "node_info_key n = NODE_INFO_PREFIX @ show_nat n"

definition node_status_key :: "node_id \<Rightarrow> string" where
  "node_status_key n = NODE_STATUS_PREFIX @ show_nat n"

definition conn_key :: "string \<Rightarrow> node_id \<Rightarrow> string" where
  "conn_key instance_id n = CONN_PREFIX @ instance_id @ ''/'' @ show_nat n"

definition handshake_prefix :: "string \<Rightarrow> string" where
  "handshake_prefix instance_id = HANDSHAKE_PREFIX @ instance_id @ ''/''"

definition handshake_key :: "string \<Rightarrow> node_id \<Rightarrow> string" where
  "handshake_key instance_id n = HANDSHAKE_PREFIX @ instance_id @ ''/'' @ show_nat n"

definition last_seen_node_prefix :: "node_id \<Rightarrow> string" where
  "last_seen_node_prefix n = LAST_SEEN_NODE_PREFIX @ show_nat n @ ''/''"

definition last_seen_node_key :: "node_id \<Rightarrow> node_id \<Rightarrow> string" where
  "last_seen_node_key n seen_by = LAST_SEEN_NODE_PREFIX @ show_nat n @ ''/'' @ show_nat seen_by"

definition peer_addr_key :: "node_id \<Rightarrow> string" where
  "peer_addr_key n = PEER_ADDR_PREFIX @ show_nat n"

definition peer_removed_key :: "node_id \<Rightarrow> string" where
  "peer_removed_key n = PEER_REMOVED_PREFIX @ show_nat n"

definition parse_cert_domain :: "string \<Rightarrow> string option" where
  "parse_cert_domain key =
    map_option (takeWhile (\<lambda>c. c \<noteq> CHR ''/'')) (strip_prefix CERT_PREFIX key)"

definition parse_inst_key :: "string \<Rightarrow> string option" where
  "parse_inst_key key = strip_prefix INST_PREFIX key"

definition parse_node_info_key :: "string \<Rightarrow> node_id option" where
  "parse_node_info_key key = Option.bind (strip_prefix NODE_INFO_PREFIX key) (parse_uint 32)"

lemma parse_inst_key_inst [simp]: "parse_inst_key (inst_key i) = Some i"
  by (simp add: parse_inst_key_def inst_key_def)

lemma parse_inst_key_Some: "parse_inst_key k = Some i \<longleftrightarrow> k = inst_key i"
  by (simp add: parse_inst_key_def inst_key_def strip_prefix_Some)

lemma parse_node_info_key_info: "n < 2 ^ 32 \<Longrightarrow> parse_node_info_key (node_info_key n) = Some n"
  by (simp add: parse_node_info_key_def node_info_key_def parse_uint_show)

lemma admin_keys_ne: "admin_ready_key i \<noteq> admin_port_policy_key j"
proof
  assume "admin_ready_key i = admin_port_policy_key j"
  then have "rev (admin_ready_key i) = rev (admin_port_policy_key j)" by simp
  then show False by (simp add: admin_ready_key_def admin_port_policy_key_def key_prefix_defs)
qed

lemma instance_keys_distinct:
  "inst_key i \<noteq> admin_ready_key j" "inst_key i \<noteq> admin_port_policy_key j"
  "conn_key i n \<noteq> handshake_key j m"
  by (simp_all add: inst_key_def admin_ready_key_def admin_port_policy_key_def conn_key_def
      handshake_key_def key_prefix_defs)

lemma instance_keys_inj [simp]:
  "inst_key i = inst_key j \<longleftrightarrow> i = j"
  "admin_ready_key i = admin_ready_key j \<longleftrightarrow> i = j"
  "admin_port_policy_key i = admin_port_policy_key j \<longleftrightarrow> i = j"
  by (simp_all add: inst_key_def admin_ready_key_def admin_port_policy_key_def)

lemmas instance_key_simps = admin_keys_ne instance_keys_distinct admin_keys_ne [symmetric]
  instance_keys_distinct [symmetric]

section \<open>The external store and codecs\<close>

type_synonym kv_error = "string list"
type_synonym 'a kv_res = "kv_error + 'a"

definition with_context :: "string \<Rightarrow> 'a kv_res \<Rightarrow> 'a kv_res" where
  "with_context msg r = (case r of Inl e \<Rightarrow> Inl (msg # e) | Inr x \<Rightarrow> Inr x)"

text \<open>The alternate form of an error's \<^verbatim>\<open>Display\<close>: its messages joined by a colon.\<close>

fun err_display :: "kv_error \<Rightarrow> string" where
  "err_display [] = []"
| "err_display [m] = m"
| "err_display (m # ms) = m @ '': '' @ err_display ms"

record entry =
  e_value :: "bytes option"

record 's wave =
  wk_get :: "'s \<Rightarrow> string \<Rightarrow> entry option"
  wk_get_including_tombstones :: "'s \<Rightarrow> string \<Rightarrow> entry option"
  wk_is_deleted :: "entry \<Rightarrow> bool"
  wk_put :: "'s \<Rightarrow> string \<Rightarrow> bytes \<Rightarrow> unit kv_res \<times> 's"
  wk_delete :: "'s \<Rightarrow> string \<Rightarrow> entry option kv_res \<times> 's"
  wk_iter_by_prefix :: "'s \<Rightarrow> string \<Rightarrow> (string \<times> entry) list"
  wk_collect :: "'s \<Rightarrow> nat kv_res \<times> 's"
  wk_acks :: "'s \<Rightarrow> nat list"
  wk_peers :: "'s \<Rightarrow> node_id list"
  wk_add_peer :: "'s \<Rightarrow> node_id \<Rightarrow> unit kv_res \<times> 's"
  wk_remove_peer :: "'s \<Rightarrow> node_id \<Rightarrow> bool kv_res \<times> 's"

record 'a codec =
  c_encode :: "'a \<Rightarrow> bytes kv_res"
  c_decode :: "bytes \<Rightarrow> 'a kv_res"
  c_declared :: "string list option"

datatype NodeStatus = Up | Down

record NodeData =
  nd_uuid :: bytes
  nd_url :: string
  nd_wg_public_key :: string
  nd_wg_endpoint :: string
  nd_wg_ip :: string

record PeerRemovalRecord =
  pr_removed_at :: nat
  pr_removed_by :: node_id

record GlobalTombstoneGcConfig =
  gc_writes_per_collection :: nat

record CollectedTombstones =
  ct_persistent :: nat
  ct_ephemeral :: nat

record ReplicatedWrites =
  rw_persistent :: nat
  rw_ephemeral :: nat

record CertRenewLock =
  lk_started_at :: nat
  lk_started_by :: node_id

datatype ChallengeKind = Dns01 | DnsPersist01

record ZtDomainConfig =
  zt_domain :: string
  zt_dns_cred_id :: "string option"
  zt_port :: "16 word"
  zt_node :: "node_id option"
  zt_priority :: int
  zt_challenge :: ChallengeKind

record CertData =
  cert_pem :: string
  key_pem :: string
  not_after :: nat
  issued_by :: node_id
  issued_at :: nat

record CertCredentials =
  acme_credentials :: string

record AcmeAttestation =
  aa_account_uri :: string
  aa_quote :: string
  aa_attestation :: string
  aa_generated_by :: node_id
  aa_generated_at :: nat

record CertAttestation =
  ca_public_key :: bytes
  ca_quote :: string
  ca_attestation :: string
  ca_generated_by :: node_id
  ca_generated_at :: nat

datatype DnsProvider = Cloudflare string "string option"

record DnsCredential =
  dc_id :: string
  dc_name :: string
  dc_provider :: DnsProvider
  dc_max_dns_wait :: nat
  dc_dns_txt_ttl :: nat
  dc_created_at :: nat
  dc_updated_at :: nat

record GlobalCertbotConfig =
  cb_renew_interval :: nat
  cb_renew_before_expiration :: nat
  cb_renew_timeout :: nat
  cb_acme_url :: string
  cb_issuer_domain_name :: string

text \<open>The parts of a parsed URL (\<^verbatim>\<open>reqwest::Url\<close>) that are inspected.\<close>

record url_parts =
  url_scheme :: string
  url_host :: "string option"
  url_username :: string
  url_password :: "string option"

record 's kv_env =
  kv_wave :: "'s wave"
  kv_marker :: "byte \<Rightarrow> Marker"
  cd_instance :: "InstanceRecord codec"
  cd_legacy :: "LegacyOverrides codec"
  cd_bool :: "bool codec"
  cd_policy :: "(PortPolicy option) codec"
  cd_u64 :: "nat codec"
  cd_status :: "NodeStatus codec"
  cd_node :: "NodeData codec"
  cd_removal :: "PeerRemovalRecord codec"
  cd_gc :: "GlobalTombstoneGcConfig codec"
  cd_string :: "string codec"
  cd_lock :: "CertRenewLock codec"
  cd_zt :: "ZtDomainConfig codec"
  cd_cert :: "CertData codec"
  cd_credentials :: "CertCredentials codec"
  cd_acme_attestation :: "AcmeAttestation codec"
  cd_cert_attestation :: "CertAttestation codec"
  cd_dns :: "DnsCredential codec"
  cd_certbot :: "GlobalCertbotConfig codec"
  kv_url_parse :: "string \<Rightarrow> url_parts kv_res"

record 's KvStore =
  kv_persistent :: 's
  kv_ephemeral :: 's
  kv_my_node_id :: node_id

section \<open>Typed reads and writes\<close>

definition kv_encode :: "'a codec \<Rightarrow> 'a \<Rightarrow> bytes kv_res" where
  "kv_encode c v = with_context ''failed to encode value'' (c_encode c v)"

definition kv_decode :: "'a codec \<Rightarrow> bytes \<Rightarrow> 'a kv_res" where
  "kv_decode c bs = with_context ''failed to decode value'' (c_decode c bs)"

definition res_ok :: "('e + 'a) \<Rightarrow> 'a option" where
  "res_ok r = (case r of Inl _ \<Rightarrow> None | Inr x \<Rightarrow> Some x)"

definition decode_at :: "'s wave \<Rightarrow> 'a codec \<Rightarrow> 's \<Rightarrow> string \<Rightarrow> 'a option" where
  "decode_at W c s key =
    Option.bind (wk_get W s key) (\<lambda>entry.
    Option.bind (e_value entry) (\<lambda>v. res_ok (kv_decode c v)))"

definition decode_strict :: "'s wave \<Rightarrow> 'a codec \<Rightarrow> 's \<Rightarrow> string \<Rightarrow> 'a option kv_res" where
  "decode_strict W c s key =
    (case wk_get W s key of
       None \<Rightarrow> Inr None
     | Some entry \<Rightarrow>
        (case e_value entry of
           None \<Rightarrow> Inr None
         | Some v \<Rightarrow>
            with_context (''corrupt record at KV key '' @ key) (rbind (kv_decode c v) (\<lambda>x. Inr (Some x)))))"

definition put_encoded ::
  "'s kv_env \<Rightarrow> 'a codec \<Rightarrow> 's \<Rightarrow> string \<Rightarrow> 'a \<Rightarrow> bool \<Rightarrow> unit kv_res \<times> 's" where
  "put_encoded E c s key v update =
    (case kv_encode c v of
       Inl e \<Rightarrow> (Inl e, s)
     | Inr encoded \<Rightarrow>
        (let bs = (case (if update then c_declared c else None) of
             None \<Rightarrow> encoded
           | Some declared \<Rightarrow>
              (case Option.bind (wk_get (kv_wave E) s key) e_value of
                 Some stored \<Rightarrow>
                   carry_unknown_fields (kv_marker E) (\<lambda>bs. res_ok (kv_decode c bs) \<noteq> None)
                     declared stored encoded
               | None \<Rightarrow> encoded));
           (r, s') = wk_put (kv_wave E) s key bs
         in (with_context (''failed to put key '' @ key) r, s')))"

definition iter_decoded :: "'s wave \<Rightarrow> 'a codec \<Rightarrow> 's \<Rightarrow> string \<Rightarrow> (string \<times> 'a) list" where
  "iter_decoded W c s pre =
    List.map_filter (\<lambda>(key, entry).
      Option.bind (e_value entry) (\<lambda>v. map_option (\<lambda>x. (key, x)) (res_ok (kv_decode c v))))
      (wk_iter_by_prefix W s pre)"

definition iter_decoded_values :: "'s wave \<Rightarrow> 'a codec \<Rightarrow> 's \<Rightarrow> string \<Rightarrow> 'a list" where
  "iter_decoded_values W c s pre =
    List.map_filter (\<lambda>(key, entry). Option.bind (e_value entry) (\<lambda>v. res_ok (kv_decode c v)))
      (wk_iter_by_prefix W s pre)"

definition iter_decoded_strict :: "'s wave \<Rightarrow> 'a codec \<Rightarrow> 's \<Rightarrow> string \<Rightarrow> (string \<times> 'a kv_res) list" where
  "iter_decoded_strict W c s pre =
    List.map_filter (\<lambda>(key, entry).
      map_option (\<lambda>v. (key, with_context (''corrupt record at KV key '' @ key) (kv_decode c v)))
        (e_value entry))
      (wk_iter_by_prefix W s pre)"

definition drop_future_observations :: "nat \<Rightarrow> ('a \<Rightarrow> nat) \<Rightarrow> 'a list \<Rightarrow> 'a list" where
  "drop_future_observations now timestamp obs =
    (let horizon = sat_add 64 now MAX_CLOCK_DRIFT_SECS in filter (\<lambda>x. timestamp x \<le> horizon) obs)"

section \<open>Instance records and operator overrides\<close>

definition on_persistent :: "('s \<Rightarrow> 'r \<times> 's) \<Rightarrow> 's KvStore \<Rightarrow> 'r \<times> 's KvStore" where
  "on_persistent f kv = (let (r, s) = f (kv_persistent kv) in (r, kv\<lparr> kv_persistent := s \<rparr>))"

definition on_ephemeral :: "('s \<Rightarrow> 'r \<times> 's) \<Rightarrow> 's KvStore \<Rightarrow> 'r \<times> 's KvStore" where
  "on_ephemeral f kv = (let (r, s) = f (kv_ephemeral kv) in (r, kv\<lparr> kv_ephemeral := s \<rparr>))"

datatype InstanceKey = Instance | Gate | PortPolicyOverrideKey | Connections | Handshake

fun instance_key_name :: "InstanceKey \<Rightarrow> string" where
  "instance_key_name Instance = ''instance''"
| "instance_key_name Gate = ''traffic gate''"
| "instance_key_name PortPolicyOverrideKey = ''port-policy override''"
| "instance_key_name Connections = ''connection count''"
| "instance_key_name Handshake = ''handshake observation''"

definition sync_instance :: "'s kv_env \<Rightarrow> string \<Rightarrow> InstanceRecord \<Rightarrow> 's KvStore \<Rightarrow> unit kv_res \<times> 's KvStore" where
  "sync_instance E instance_id data =
    on_persistent (\<lambda>s. put_encoded E (cd_instance E) s (inst_key instance_id) data True)"

definition instance_gate :: "'s kv_env \<Rightarrow> 's KvStore \<Rightarrow> string \<Rightarrow> bool option kv_res" where
  "instance_gate E kv instance_id =
    decode_strict (kv_wave E) (cd_bool E) (kv_persistent kv) (admin_ready_key instance_id)"

definition instance_port_policy_override ::
  "'s kv_env \<Rightarrow> 's KvStore \<Rightarrow> string \<Rightarrow> PortPolicyOverride option kv_res" where
  "instance_port_policy_override E kv instance_id =
    rbind (decode_strict (kv_wave E) (cd_policy E) (kv_persistent kv) (admin_port_policy_key instance_id))
      (\<lambda>stored. Inr (map_option (\<lambda>p. case p of Some policy \<Rightarrow> SetPolicy policy | None \<Rightarrow> Cleared) stored))"

definition put_admin_override ::
  "'s kv_env \<Rightarrow> 'a codec \<Rightarrow> InstanceKey \<Rightarrow> string \<Rightarrow> 'a \<Rightarrow> 's KvStore \<Rightarrow> unit kv_res \<times> 's KvStore" where
  "put_admin_override E c rec key v kv =
    (let (r, kv') = on_persistent (\<lambda>s. put_encoded E c s key v False) kv
     in (with_context (''failed to write the '' @ instance_key_name rec @ '' record'') r, kv'))"

definition set_instance_gate :: "'s kv_env \<Rightarrow> string \<Rightarrow> bool \<Rightarrow> 's KvStore \<Rightarrow> unit kv_res \<times> 's KvStore" where
  "set_instance_gate E instance_id ready =
    put_admin_override E (cd_bool E) Gate (admin_ready_key instance_id) ready"

definition set_instance_port_policy_override ::
  "'s kv_env \<Rightarrow> string \<Rightarrow> PortPolicy option \<Rightarrow> 's KvStore \<Rightarrow> unit kv_res \<times> 's KvStore" where
  "set_instance_port_policy_override E instance_id policy =
    put_admin_override E (cd_policy E) PortPolicyOverrideKey (admin_port_policy_key instance_id) policy"

definition legacy_instance_overrides :: "'s kv_env \<Rightarrow> 's KvStore \<Rightarrow> (string, LegacyOverrides) btree_map" where
  "legacy_instance_overrides E kv =
    bt_of_list (List.map_filter (\<lambda>(key, legacy).
      if legacy_is_empty legacy then None else map_option (\<lambda>i. (i, legacy)) (parse_inst_key key))
      (iter_decoded (kv_wave E) (cd_legacy E) (kv_persistent kv) INST_PREFIX))"

definition record_migration ::
  "'s kv_env \<Rightarrow> 'a codec \<Rightarrow> InstanceKey \<Rightarrow> string \<Rightarrow> 'a \<Rightarrow> string list \<times> 's KvStore
    \<Rightarrow> string list \<times> 's KvStore" where
  "record_migration E c rec key v st =
    (case put_admin_override E c rec key v (snd st) of
       (Inr _, kv) \<Rightarrow> (fst st @ [key], kv)
     | (Inl _, kv) \<Rightarrow> (fst st, kv))"

fun migrate_one ::
  "'s kv_env \<Rightarrow> string \<times> LegacyOverrides \<Rightarrow> string list \<times> 's KvStore \<Rightarrow> string list \<times> 's KvStore" where
  "migrate_one E (instance_id, legacy) st =
    (let st1 = (case lo_ready legacy of
         Some ready \<Rightarrow>
           if instance_gate E (snd st) instance_id = Inr None
           then record_migration E (cd_bool E) Gate (admin_ready_key instance_id) ready st
           else st
       | None \<Rightarrow> st)
     in if lo_admin_port_policy legacy \<noteq> None \<and>
           instance_port_policy_override E (snd st1) instance_id = Inr None
        then record_migration E (cd_policy E) PortPolicyOverrideKey
          (admin_port_policy_key instance_id) (lo_admin_port_policy legacy) st1
        else st1)"

definition migrate_legacy_instance_overrides :: "'s kv_env \<Rightarrow> 's KvStore \<Rightarrow> string list \<times> 's KvStore" where
  "migrate_legacy_instance_overrides E kv =
    fold (migrate_one E) (legacy_instance_overrides E kv) ([], kv)"

definition delete_persistent ::
  "'s kv_env \<Rightarrow> string \<Rightarrow> InstanceKey \<Rightarrow> 's KvStore \<Rightarrow> entry option kv_res \<times> 's KvStore" where
  "delete_persistent E key rec kv =
    (let (r, kv') = on_persistent (\<lambda>s. wk_delete (kv_wave E) s key) kv
     in (with_context (''failed to delete the '' @ instance_key_name rec @ '' record'') r, kv'))"

definition delete_ephemeral ::
  "'s kv_env \<Rightarrow> string \<Rightarrow> InstanceKey \<Rightarrow> 's KvStore \<Rightarrow> entry option kv_res \<times> 's KvStore" where
  "delete_ephemeral E key rec kv =
    (let (r, kv') = on_ephemeral (\<lambda>s. wk_delete (kv_wave E) s key) kv
     in (with_context (''failed to delete the '' @ instance_key_name rec @ '' record'') r, kv'))"

definition sync_forget_local_observations :: "'s kv_env \<Rightarrow> string \<Rightarrow> 's KvStore \<Rightarrow> unit kv_res \<times> 's KvStore" where
  "sync_forget_local_observations E instance_id kv =
    (let (conn, kv1) = delete_ephemeral E (conn_key instance_id (kv_my_node_id kv)) Connections kv;
         (handshake, kv2) = delete_ephemeral E (handshake_key instance_id (kv_my_node_id kv)) Handshake kv1
     in (rbind conn (\<lambda>_. rbind handshake (\<lambda>_. Inr ())), kv2))"

definition live_entry :: "'s wave \<Rightarrow> entry option \<Rightarrow> bool" where
  "live_entry W e = (case e of None \<Rightarrow> False | Some x \<Rightarrow> \<not> wk_is_deleted W x)"

definition sync_delete_instance :: "'s kv_env \<Rightarrow> string \<Rightarrow> 's KvStore \<Rightarrow> bool kv_res \<times> 's KvStore" where
  "sync_delete_instance E instance_id kv =
    (let (previous, kv1) = delete_persistent E (inst_key instance_id) Instance kv;
         (gate, kv2) = delete_persistent E (admin_ready_key instance_id) Gate kv1;
         (override_policy, kv3) =
           delete_persistent E (admin_port_policy_key instance_id) PortPolicyOverrideKey kv2;
         (observations, kv4) = sync_forget_local_observations E instance_id kv3
     in (rbind previous (\<lambda>entry. Inr (live_entry (kv_wave E) entry)), kv4))"

fun load_record :: "string \<times> InstanceRecord kv_res \<Rightarrow> LoadedInstances \<Rightarrow> LoadedInstances" where
  "load_record (key, result) loaded =
    (case parse_inst_key key of
       None \<Rightarrow> loaded
     | Some instance_id \<Rightarrow>
        (case result of
           Inr data \<Rightarrow> loaded\<lparr> decoded := bt_insert instance_id data (decoded loaded) \<rparr>
         | Inl err \<Rightarrow>
            loaded\<lparr> undecodable := bt_insert instance_id (err_display err) (undecodable loaded) \<rparr>))"

definition load_all_instances :: "'s kv_env \<Rightarrow> 's KvStore \<Rightarrow> LoadedInstances" where
  "load_all_instances E kv =
    fold load_record (iter_decoded_strict (kv_wave E) (cd_instance E) (kv_persistent kv) INST_PREFIX)
      \<lparr> decoded = [], undecodable = [] \<rparr>"

section \<open>Nodes, observations and peers\<close>

definition sync_node :: "'s kv_env \<Rightarrow> node_id \<Rightarrow> NodeData \<Rightarrow> 's KvStore \<Rightarrow> unit kv_res \<times> 's KvStore" where
  "sync_node E n data = on_persistent (\<lambda>s. put_encoded E (cd_node E) s (node_info_key n) data True)"

definition load_all_nodes :: "'s kv_env \<Rightarrow> 's KvStore \<Rightarrow> (node_id, NodeData) btree_map" where
  "load_all_nodes E kv =
    bt_of_list (List.map_filter (\<lambda>(key, data). map_option (\<lambda>n. (n, data)) (parse_node_info_key key))
      (iter_decoded (kv_wave E) (cd_node E) (kv_persistent kv) NODE_INFO_PREFIX))"

definition sync_remove_node :: "'s kv_env \<Rightarrow> node_id \<Rightarrow> 's KvStore \<Rightarrow> bool kv_res \<times> 's KvStore" where
  "sync_remove_node E n kv =
    (let del = (\<lambda>key. on_persistent (\<lambda>s. wk_delete (kv_wave E) s key)) in
     case del (node_info_key n) kv of
       (Inl e, kv1) \<Rightarrow> (Inl e, kv1)
     | (Inr p1, kv1) \<Rightarrow>
        (case del (node_status_key n) kv1 of
           (Inl e, kv2) \<Rightarrow> (Inl e, kv2)
         | (Inr p2, kv2) \<Rightarrow>
            (case del (peer_addr_key n) kv2 of
               (Inl e, kv3) \<Rightarrow> (Inl e, kv3)
             | (Inr p3, kv3) \<Rightarrow>
                (case on_ephemeral (\<lambda>s. wk_delete (kv_wave E) s (last_seen_node_key n (kv_my_node_id kv))) kv3 of
                   (Inl e, kv4) \<Rightarrow> (Inl e, kv4)
                 | (Inr _, kv4) \<Rightarrow>
                    (Inr (list_ex (live_entry (kv_wave E)) [p1, p2, p3]), kv4)))))"

definition set_node_status :: "'s kv_env \<Rightarrow> node_id \<Rightarrow> NodeStatus \<Rightarrow> 's KvStore \<Rightarrow> unit kv_res \<times> 's KvStore" where
  "set_node_status E n status =
    on_persistent (\<lambda>s. put_encoded E (cd_status E) s (node_status_key n) status False)"

definition get_node_status :: "'s kv_env \<Rightarrow> 's KvStore \<Rightarrow> node_id \<Rightarrow> NodeStatus" where
  "get_node_status E kv n =
    (case decode_at (kv_wave E) (cd_status E) (kv_persistent kv) (node_status_key n) of
       Some st \<Rightarrow> st | None \<Rightarrow> Up)"

definition load_all_node_statuses :: "'s kv_env \<Rightarrow> 's KvStore \<Rightarrow> (node_id, NodeStatus) btree_map" where
  "load_all_node_statuses E kv =
    bt_of_list (List.map_filter (\<lambda>(key, status).
      Option.bind (strip_prefix NODE_STATUS_PREFIX key) (\<lambda>r. map_option (\<lambda>n. (n, status)) (parse_uint 32 r)))
      (iter_decoded (kv_wave E) (cd_status E) (kv_persistent kv) NODE_STATUS_PREFIX))"

definition node_is_active :: "NodeStatus option \<Rightarrow> bool" where
  "node_is_active status = (status \<noteq> Some Down)"

definition count_nodes :: "'s kv_env \<Rightarrow> 's KvStore \<Rightarrow> nat \<times> nat" where
  "count_nodes E kv =
    (let statuses = load_all_node_statuses E kv; nodes = load_all_nodes E kv
     in (length nodes, length (filter (\<lambda>n. node_is_active (bt_get statuses n)) (bt_keys nodes))))"

definition kv_sync_connections :: "'s kv_env \<Rightarrow> string \<Rightarrow> nat \<Rightarrow> 's KvStore \<Rightarrow> unit kv_res \<times> 's KvStore" where
  "kv_sync_connections E instance_id count kv =
    on_ephemeral (\<lambda>s. put_encoded E (cd_u64 E) s (conn_key instance_id (kv_my_node_id kv)) count False) kv"

definition sync_instance_handshake :: "'s kv_env \<Rightarrow> string \<Rightarrow> nat \<Rightarrow> 's KvStore \<Rightarrow> unit kv_res \<times> 's KvStore" where
  "sync_instance_handshake E instance_id timestamp kv =
    on_ephemeral (\<lambda>s. put_encoded E (cd_u64 E) s (handshake_key instance_id (kv_my_node_id kv)) timestamp False) kv"

definition observations_by ::
  "'s kv_env \<Rightarrow> 's KvStore \<Rightarrow> nat \<Rightarrow> string \<Rightarrow> (node_id, nat) btree_map" where
  "observations_by E kv now pre =
    bt_of_list (drop_future_observations now snd
      (List.map_filter (\<lambda>(key, ts).
        Option.bind (strip_prefix pre key) (\<lambda>r. map_option (\<lambda>n. (n, ts)) (parse_uint 32 r)))
        (iter_decoded (kv_wave E) (cd_u64 E) (kv_ephemeral kv) pre)))"

definition list_max :: "nat list \<Rightarrow> nat option" where
  "list_max xs = (if xs = [] then None else Some (Max (set xs)))"

definition get_instance_handshakes :: "'s kv_env \<Rightarrow> 's KvStore \<Rightarrow> nat \<Rightarrow> string \<Rightarrow> (node_id, nat) btree_map" where
  "get_instance_handshakes E kv now instance_id = observations_by E kv now (handshake_prefix instance_id)"

definition get_instance_latest_handshake :: "'s kv_env \<Rightarrow> 's KvStore \<Rightarrow> nat \<Rightarrow> string \<Rightarrow> nat option" where
  "get_instance_latest_handshake E kv now instance_id =
    list_max (drop_future_observations now id
      (iter_decoded_values (kv_wave E) (cd_u64 E) (kv_ephemeral kv) (handshake_prefix instance_id)))"

definition sync_node_last_seen :: "'s kv_env \<Rightarrow> node_id \<Rightarrow> nat \<Rightarrow> 's KvStore \<Rightarrow> unit kv_res \<times> 's KvStore" where
  "sync_node_last_seen E n timestamp kv =
    on_ephemeral (\<lambda>s. put_encoded E (cd_u64 E) s (last_seen_node_key n (kv_my_node_id kv)) timestamp False) kv"

definition get_node_last_seen_by_all :: "'s kv_env \<Rightarrow> 's KvStore \<Rightarrow> nat \<Rightarrow> node_id \<Rightarrow> (node_id, nat) btree_map" where
  "get_node_last_seen_by_all E kv now n = observations_by E kv now (last_seen_node_prefix n)"

definition get_node_latest_last_seen :: "'s kv_env \<Rightarrow> 's KvStore \<Rightarrow> nat \<Rightarrow> node_id \<Rightarrow> nat option" where
  "get_node_latest_last_seen E kv now n =
    list_max (drop_future_observations now id
      (iter_decoded_values (kv_wave E) (cd_u64 E) (kv_ephemeral kv) (last_seen_node_prefix n)))"

section \<open>What the store relies on\<close>

text \<open>
  The documented behaviour of a \<^verbatim>\<open>wavekv\<close> node that the proofs use: a successful put is visible to
  the next get, a successful delete hides the key from get, and no write touches another key.
\<close>

definition wave_laws :: "'s wave \<Rightarrow> bool" where
  "wave_laws W =
    ((\<forall>s k v s'. wk_put W s k v = (Inr (), s') \<longrightarrow> (\<exists>e. wk_get W s' k = Some e \<and> e_value e = Some v)) \<and>
     (\<forall>s k v k'. k' \<noteq> k \<longrightarrow> wk_get W (snd (wk_put W s k v)) k' = wk_get W s k') \<and>
     (\<forall>s k r s'. wk_delete W s k = (Inr r, s') \<longrightarrow> wk_get W s' k = None) \<and>
     (\<forall>s k k'. k' \<noteq> k \<longrightarrow> wk_get W (snd (wk_delete W s k)) k' = wk_get W s k'))"

text \<open>Encoding \<open>v\<close> and decoding the bytes gives \<open>v\<close> back.\<close>

definition codec_rt :: "'a codec \<Rightarrow> 'a \<Rightarrow> bool" where
  "codec_rt c v = (\<exists>bs. c_encode c v = Inr bs \<and> c_decode c bs = Inr v)"

named_theorems kv_frame \<open>which keys an operation leaves alone\<close>

lemma wave_put_get: "wave_laws W \<Longrightarrow> wk_put W s k v = (Inr (), s') \<Longrightarrow> \<exists>e. wk_get W s' k = Some e \<and> e_value e = Some v"
  by (simp add: wave_laws_def)

lemma wave_put_other [kv_frame]: "wave_laws W \<Longrightarrow> k' \<noteq> k \<Longrightarrow> wk_get W (snd (wk_put W s k v)) k' = wk_get W s k'"
  by (simp add: wave_laws_def)

lemma wave_delete_get: "wave_laws W \<Longrightarrow> wk_delete W s k = (Inr r, s') \<Longrightarrow> wk_get W s' k = None"
  by (simp add: wave_laws_def)

lemma wave_delete_other [kv_frame]: "wave_laws W \<Longrightarrow> k' \<noteq> k \<Longrightarrow> wk_get W (snd (wk_delete W s k)) k' = wk_get W s k'"
  by (simp add: wave_laws_def)

lemma with_context_Inr [simp]: "with_context m r = Inr x \<longleftrightarrow> r = Inr x"
  by (simp add: with_context_def split: sum.splits)

lemma with_context_Inl: "with_context m r = Inl e \<longleftrightarrow> (\<exists>e'. r = Inl e' \<and> e = m # e')"
  by (auto simp: with_context_def split: sum.splits)

lemma put_encoded_other [kv_frame]:
  "wave_laws (kv_wave E) \<Longrightarrow> k' \<noteq> k \<Longrightarrow>
    wk_get (kv_wave E) (snd (put_encoded E c s k v u)) k' = wk_get (kv_wave E) s k'"
  by (simp add: put_encoded_def Let_def case_prod_unfold wave_put_other split: sum.splits)

lemma put_encoded_live:
  assumes "wave_laws (kv_wave E)" "put_encoded E c s k v u = (Inr (), s')"
  shows "\<exists>e bs. wk_get (kv_wave E) s' k = Some e \<and> e_value e = Some bs"
  using assms(2) wave_put_get [OF assms(1)]
  by (fastforce simp: put_encoded_def Let_def split: sum.splits prod.splits)

lemma put_encoded_replace:
  assumes "wave_laws (kv_wave E)" "put_encoded E c s k v False = (Inr (), s')" "codec_rt c v"
  shows "decode_strict (kv_wave E) c s' k = Inr (Some v)" "decode_at (kv_wave E) c s' k = Some v"
proof -
  obtain bs where bs: "c_encode c v = Inr bs" "c_decode c bs = Inr v"
    using assms(3) by (auto simp: codec_rt_def)
  then have "wk_put (kv_wave E) s k bs = (Inr (), s')"
    using assms(2) by (auto simp: put_encoded_def kv_encode_def with_context_def Let_def
        split: sum.splits prod.splits)
  then obtain e where "wk_get (kv_wave E) s' k = Some e" "e_value e = Some bs"
    using wave_put_get [OF assms(1)] by blast
  then show "decode_strict (kv_wave E) c s' k = Inr (Some v)" "decode_at (kv_wave E) c s' k = Some v"
    using bs by (simp_all add: decode_strict_def decode_at_def kv_decode_def with_context_def res_ok_def)
qed

lemma decode_strict_cong:
  "wk_get W s k = wk_get W s' k \<Longrightarrow> decode_strict W c s k = decode_strict W c s' k"
  by (simp add: decode_strict_def)

lemma on_persistent_simps [simp]:
  "fst (on_persistent f kv) = fst (f (kv_persistent kv))"
  "kv_persistent (snd (on_persistent f kv)) = snd (f (kv_persistent kv))"
  "kv_ephemeral (snd (on_persistent f kv)) = kv_ephemeral kv"
  "kv_my_node_id (snd (on_persistent f kv)) = kv_my_node_id kv"
  by (simp_all add: on_persistent_def case_prod_unfold Let_def)

lemma on_ephemeral_simps [simp]:
  "fst (on_ephemeral f kv) = fst (f (kv_ephemeral kv))"
  "kv_ephemeral (snd (on_ephemeral f kv)) = snd (f (kv_ephemeral kv))"
  "kv_persistent (snd (on_ephemeral f kv)) = kv_persistent kv"
  "kv_my_node_id (snd (on_ephemeral f kv)) = kv_my_node_id kv"
  by (simp_all add: on_ephemeral_def case_prod_unfold Let_def)

section \<open>Operator overrides are out of reach of registrations\<close>

lemma put_admin_override_snd [simp]:
  "snd (put_admin_override E c rec k v kv) = snd (on_persistent (\<lambda>s. put_encoded E c s k v False) kv)"
  by (simp add: put_admin_override_def case_prod_unfold Let_def)

lemma put_admin_override_Inr:
  "put_admin_override E c rec k v kv = (Inr (), kv') \<longleftrightarrow>
    on_persistent (\<lambda>s. put_encoded E c s k v False) kv = (Inr (), kv')"
  by (auto simp: put_admin_override_def case_prod_unfold Let_def prod_eq_iff)

lemma on_persistent_result:
  "on_persistent f kv = (r, kv') \<Longrightarrow> f (kv_persistent kv) = (r, kv_persistent kv')"
  by (auto simp: on_persistent_def split: prod.splits)

lemma put_admin_override_get:
  assumes "wave_laws (kv_wave E)" "codec_rt c v" "put_admin_override E c rec k v kv = (Inr (), kv')"
  shows "decode_strict (kv_wave E) c (kv_persistent kv') k = Inr (Some v)"
proof -
  have "put_encoded E c (kv_persistent kv) k v False = (Inr (), kv_persistent kv')"
    using assms(3) unfolding put_admin_override_Inr by (rule on_persistent_result)
  then show ?thesis
    by (rule put_encoded_replace(1) [OF assms(1) _ assms(2)])
qed

lemma gate_frame [kv_frame]:
  "wk_get (kv_wave E) (kv_persistent kv') (admin_ready_key i) = wk_get (kv_wave E) (kv_persistent kv) (admin_ready_key i)
    \<Longrightarrow> instance_gate E kv' i = instance_gate E kv i"
  unfolding instance_gate_def by (rule decode_strict_cong)

lemma policy_frame [kv_frame]:
  assumes "wk_get (kv_wave E) (kv_persistent kv') (admin_port_policy_key i) =
      wk_get (kv_wave E) (kv_persistent kv) (admin_port_policy_key i)"
  shows "instance_port_policy_override E kv' i = instance_port_policy_override E kv i"
  using decode_strict_cong [OF assms, of "cd_policy E"]
  by (simp add: instance_port_policy_override_def)

lemma sync_instance_frame:
  assumes "wave_laws (kv_wave E)"
  shows "instance_gate E (snd (sync_instance E i d kv)) j = instance_gate E kv j"
    "instance_port_policy_override E (snd (sync_instance E i d kv)) j = instance_port_policy_override E kv j"
  by (rule gate_frame policy_frame,
      simp add: sync_instance_def put_encoded_other [OF assms] instance_key_simps)+

lemma set_instance_gate_get:
  assumes "wave_laws (kv_wave E)" "codec_rt (cd_bool E) b" "set_instance_gate E i b kv = (Inr (), kv')"
  shows "instance_gate E kv' i = Inr (Some b)"
  using put_admin_override_get [OF assms(1,2)] assms(3)
  unfolding set_instance_gate_def instance_gate_def by blast

lemma set_instance_gate_frame:
  assumes "wave_laws (kv_wave E)"
  shows "j \<noteq> i \<Longrightarrow> instance_gate E (snd (set_instance_gate E i b kv)) j = instance_gate E kv j"
    "instance_port_policy_override E (snd (set_instance_gate E i b kv)) j = instance_port_policy_override E kv j"
  by (rule gate_frame policy_frame,
      simp add: set_instance_gate_def put_encoded_other [OF assms] instance_key_simps)+

lemma set_policy_get:
  assumes "wave_laws (kv_wave E)" "codec_rt (cd_policy E) p"
    "set_instance_port_policy_override E i p kv = (Inr (), kv')"
  shows "instance_port_policy_override E kv' i =
    Inr (Some (case p of None \<Rightarrow> Cleared | Some x \<Rightarrow> SetPolicy x))"
proof -
  have "decode_strict (kv_wave E) (cd_policy E) (kv_persistent kv') (admin_port_policy_key i) = Inr (Some p)"
    using put_admin_override_get [OF assms(1,2)] assms(3)
    unfolding set_instance_port_policy_override_def by blast
  then show ?thesis
    by (simp add: instance_port_policy_override_def split: option.splits)
qed

lemma set_policy_frame:
  assumes "wave_laws (kv_wave E)"
  shows "j \<noteq> i \<Longrightarrow> instance_port_policy_override E (snd (set_instance_port_policy_override E i p kv)) j =
      instance_port_policy_override E kv j"
    "instance_gate E (snd (set_instance_port_policy_override E i p kv)) j = instance_gate E kv j"
  by (rule gate_frame policy_frame,
      simp add: set_instance_port_policy_override_def put_encoded_other [OF assms] instance_key_simps)+

end
