(* ===== verification/Gateway_Kv_Facts.thy ===== *)
theory Gateway_Kv_Facts
  imports Gateway_Kv
begin

text \<open>
  Facts about the instance operations of the store: a removal attempts all five deletes whatever
  fails, the migration of legacy overrides never overwrites an operator's decision, observations
  dated into the future are ignored, and loading separates readable from unreadable records.  An
  in-memory store with concrete codecs is defined to evaluate the operations.
\<close>

section \<open>Removal attempts every delete\<close>

text \<open>A store whose deletes fail exactly on the keys of \<open>fails\<close>, in every state.\<close>

definition deletes_fail_on :: "'s wave \<Rightarrow> (string \<Rightarrow> bool) \<Rightarrow> bool" where
  "deletes_fail_on W fails = (\<forall>s k. (\<exists>e. fst (wk_delete W s k) = Inl e) \<longleftrightarrow> fails k)"

lemma delete_hides:
  assumes "wave_laws W" "deletes_fail_on W fails" "\<not> fails k"
  shows "wk_get W (snd (wk_delete W s k)) k = None"
proof (cases "wk_delete W s k")
  case (Pair r s')
  have "r \<noteq> Inl e" for e
    using assms(2,3) Pair by (metis deletes_fail_on_def fst_conv)
  then obtain x where "r = Inr x" by (cases r) auto
  then show ?thesis
    using Pair wave_delete_get [OF assms(1)] by simp
qed

lemma delete_persistent_snd [simp]:
  "snd (delete_persistent E k rec kv) = snd (on_persistent (\<lambda>s. wk_delete (kv_wave E) s k) kv)"
  "snd (delete_ephemeral E k rec kv) = snd (on_ephemeral (\<lambda>s. wk_delete (kv_wave E) s k) kv)"
  by (simp_all add: delete_persistent_def delete_ephemeral_def case_prod_unfold Let_def)

lemma sync_forget_snd:
  "snd (sync_forget_local_observations E i kv) =
    (let kv1 = snd (on_ephemeral (\<lambda>s. wk_delete (kv_wave E) s (conn_key i (kv_my_node_id kv))) kv)
     in snd (on_ephemeral (\<lambda>s. wk_delete (kv_wave E) s (handshake_key i (kv_my_node_id kv))) kv1))"
  by (simp add: sync_forget_local_observations_def case_prod_unfold Let_def)

lemma sync_delete_persistent:
  "kv_persistent (snd (sync_delete_instance E i kv)) =
    snd (wk_delete (kv_wave E) (snd (wk_delete (kv_wave E) (snd (wk_delete (kv_wave E)
      (kv_persistent kv) (inst_key i))) (admin_ready_key i))) (admin_port_policy_key i))"
  by (simp add: sync_delete_instance_def case_prod_unfold Let_def sync_forget_snd)

lemma sync_delete_ephemeral:
  "kv_ephemeral (snd (sync_delete_instance E i kv)) =
    snd (wk_delete (kv_wave E) (snd (wk_delete (kv_wave E)
      (kv_ephemeral kv) (conn_key i (kv_my_node_id kv)))) (handshake_key i (kv_my_node_id kv)))"
  by (simp add: sync_delete_instance_def case_prod_unfold Let_def sync_forget_snd)

lemma sync_delete_hides:
  assumes "wave_laws (kv_wave E)" "deletes_fail_on (kv_wave E) fails" "\<not> fails k"
  shows "k \<in> {inst_key i, admin_ready_key i, admin_port_policy_key i} \<Longrightarrow>
      wk_get (kv_wave E) (kv_persistent (snd (sync_delete_instance E i kv))) k = None"
    "k \<in> {conn_key i (kv_my_node_id kv), handshake_key i (kv_my_node_id kv)} \<Longrightarrow>
      wk_get (kv_wave E) (kv_ephemeral (snd (sync_delete_instance E i kv))) k = None"
  unfolding sync_delete_persistent sync_delete_ephemeral
  using delete_hides [OF assms] wave_delete_other [OF assms(1)]
  by (auto simp: instance_key_simps)

section \<open>Migration never overwrites a decision\<close>

lemma record_migration_snd:
  "snd (record_migration E c rec k v st) = snd (on_persistent (\<lambda>s. put_encoded E c s k v False) (snd st))"
  using put_admin_override_snd [of E c rec k v "snd st"]
  by (cases "put_admin_override E c rec k v (snd st)")
    (auto simp: record_migration_def split: sum.splits)

lemma record_migration_get:
  assumes "wave_laws (kv_wave E)" "j \<noteq> k"
  shows "wk_get (kv_wave E) (kv_persistent (snd (record_migration E c rec k v st))) j =
    wk_get (kv_wave E) (kv_persistent (snd st)) j"
  by (simp add: record_migration_snd put_encoded_other [OF assms])

lemma migrate_one_gate:
  assumes W: "wave_laws (kv_wave E)" and "instance_gate E (snd st) i \<noteq> Inr None"
  shows "instance_gate E (snd (migrate_one E (j, legacy) st)) i = instance_gate E (snd st) i"
proof -
  have step: "instance_gate E (snd (record_migration E (cd_bool E) Gate (admin_ready_key j) r st)) i =
      instance_gate E (snd st) i" if "instance_gate E (snd st) j = Inr None" for r
    using that assms(2) by (intro gate_frame record_migration_get [OF W]) auto
  have policy: "instance_gate E (snd (record_migration E (cd_policy E) PortPolicyOverrideKey
      (admin_port_policy_key j) p t)) i = instance_gate E (snd t) i" for p t
    by (intro gate_frame record_migration_get [OF W]) (rule admin_keys_ne)
  show ?thesis
    by (simp add: Let_def step policy split: option.splits)
qed

lemma migrate_one_policy:
  assumes W: "wave_laws (kv_wave E)" and "instance_port_policy_override E (snd st) i \<noteq> Inr None"
  shows "instance_port_policy_override E (snd (migrate_one E (j, legacy) st)) i =
    instance_port_policy_override E (snd st) i"
proof -
  have gate: "instance_port_policy_override E (snd (record_migration E (cd_bool E) Gate (admin_ready_key j) r t)) i =
      instance_port_policy_override E (snd t) i" for r t
    by (intro policy_frame record_migration_get [OF W]) (rule admin_keys_ne [symmetric])
  have policy: "instance_port_policy_override E (snd (record_migration E (cd_policy E) PortPolicyOverrideKey
      (admin_port_policy_key j) p t)) i = instance_port_policy_override E (snd t) i"
    if "instance_port_policy_override E (snd t) j = Inr None"
      "instance_port_policy_override E (snd t) i \<noteq> Inr None" for p t
    using that by (intro policy_frame record_migration_get [OF W]) auto
  show ?thesis
    using assms(2) by (simp add: Let_def gate policy split: option.splits)
qed

lemma migrate_fold:
  assumes W: "wave_laws (kv_wave E)"
  shows "instance_gate E (snd st) i \<noteq> Inr None \<Longrightarrow>
      instance_gate E (snd (fold (migrate_one E) ls st)) i = instance_gate E (snd st) i"
    "instance_port_policy_override E (snd st) i \<noteq> Inr None \<Longrightarrow>
      instance_port_policy_override E (snd (fold (migrate_one E) ls st)) i =
      instance_port_policy_override E (snd st) i"
proof (induction ls arbitrary: st)
  case (Cons l ls)
  {
    case 1
    then show ?case
      using Cons(1) [of "migrate_one E l st"] migrate_one_gate [OF W, where st = st and i = i and j = "fst l" and legacy = "snd l"]
      by simp
  next
    case 2
    then show ?case
      using Cons(2) [of "migrate_one E l st"] migrate_one_policy [OF W, where st = st and i = i and j = "fst l" and legacy = "snd l"]
      by simp
  }
qed simp_all

section \<open>Loading\<close>

lemma load_record_wf:
  "bt_wf (decoded L) \<Longrightarrow> bt_wf (undecodable L) \<Longrightarrow>
    bt_wf (decoded (load_record p L)) \<and> bt_wf (undecodable (load_record p L))"
  by (cases p) (auto split: option.splits sum.splits)

lemma load_fold_wf:
  "bt_wf (decoded L) \<Longrightarrow> bt_wf (undecodable L) \<Longrightarrow>
    bt_wf (decoded (fold load_record ps L)) \<and> bt_wf (undecodable (fold load_record ps L))"
  by (induction ps arbitrary: L) (simp_all add: load_record_wf)

lemma load_all_instances_wf: "bt_wf (decoded (load_all_instances E kv))"
  unfolding load_all_instances_def by (rule load_fold_wf [THEN conjunct1]) simp_all

section \<open>Observations\<close>

lemma list_max_bound: "list_max xs = Some m \<Longrightarrow> m \<in> set xs"
  by (auto simp: list_max_def split: if_splits)

lemma drop_future_bound:
  "x \<in> set (drop_future_observations now f xs) \<Longrightarrow> f x \<le> now + MAX_CLOCK_DRIFT_SECS \<and> x \<in> set xs"
  by (auto simp: drop_future_observations_def Let_def sat_add_def)

section \<open>An in-memory store\<close>

record mem_node =
  mn_data :: "(string, bytes option) btree_map"
  mn_peers :: "node_id list"

definition mem_get_all :: "mem_node \<Rightarrow> string \<Rightarrow> entry option" where
  "mem_get_all s k = map_option (\<lambda>v. \<lparr> e_value = v \<rparr>) (bt_get (mn_data s) k)"

definition mem_get :: "mem_node \<Rightarrow> string \<Rightarrow> entry option" where
  "mem_get s k = (case bt_get (mn_data s) k of Some (Some v) \<Rightarrow> Some \<lparr> e_value = Some v \<rparr> | _ \<Rightarrow> None)"

definition mem_put :: "mem_node \<Rightarrow> string \<Rightarrow> bytes \<Rightarrow> unit kv_res \<times> mem_node" where
  "mem_put s k v = (Inr (), s\<lparr> mn_data := bt_insert k (Some v) (mn_data s) \<rparr>)"

definition mem_delete :: "(string \<Rightarrow> bool) \<Rightarrow> mem_node \<Rightarrow> string \<Rightarrow> entry option kv_res \<times> mem_node" where
  "mem_delete fails s k =
    (if fails k then (Inl [''no space left on device''], s)
     else (Inr (mem_get_all s k), s\<lparr> mn_data := bt_insert k None (mn_data s) \<rparr>))"

definition mem_iter :: "mem_node \<Rightarrow> string \<Rightarrow> (string \<times> entry) list" where
  "mem_iter s pre = List.map_filter (\<lambda>(k, v).
    if strip_prefix pre k = None \<or> v = None then None else Some (k, \<lparr> e_value = v \<rparr>)) (mn_data s)"

definition mem_wave :: "(string \<Rightarrow> bool) \<Rightarrow> mem_node wave" where
  "mem_wave fails = \<lparr> wk_get = mem_get, wk_get_including_tombstones = mem_get_all,
    wk_is_deleted = (\<lambda>e. e_value e = None), wk_put = mem_put, wk_delete = mem_delete fails,
    wk_iter_by_prefix = mem_iter, wk_collect = (\<lambda>s. (Inr 0, s)), wk_acks = (\<lambda>_. []),
    wk_peers = mn_peers, wk_add_peer = (\<lambda>s n. (Inr (), s\<lparr> mn_peers := n # mn_peers s \<rparr>)),
    wk_remove_peer = (\<lambda>s n. (Inr (n \<in> set (mn_peers s)),
      s\<lparr> mn_peers := filter (\<lambda>m. m \<noteq> n) (mn_peers s) \<rparr>)) \<rparr>"

lemma mem_wave_laws: "wave_laws (mem_wave fails)"
  by (auto simp: wave_laws_def mem_wave_def mem_put_def mem_delete_def mem_get_def
      split: if_splits)

lemma mem_deletes_fail: "deletes_fail_on (mem_wave fails) fails"
  by (auto simp: deletes_fail_on_def mem_wave_def mem_delete_def)

text \<open>A codec given by a finite table of values and their bytes.\<close>

definition table_codec :: "('a \<times> bytes) list \<Rightarrow> 'a codec" where
  "table_codec t = \<lparr>
    c_encode = (\<lambda>v. case map_of t v of None \<Rightarrow> Inl [''no encoding''] | Some b \<Rightarrow> Inr b),
    c_decode = (\<lambda>b. case map_of (map prod.swap t) b of None \<Rightarrow> Inl [''no decoding''] | Some v \<Rightarrow> Inr v),
    c_declared = None \<rparr>"

definition demo_policy :: PortPolicy where
  "demo_policy = \<lparr> pol_ports = [(8080, \<lparr> pf_pp = True \<rparr>)], pol_restrict_mode = True \<rparr>"

definition demo_env :: "(string \<Rightarrow> bool) \<Rightarrow> mem_node kv_env" where
  "demo_env fails = \<lparr> kv_wave = mem_wave fails, kv_marker = msgpack_marker,
    cd_instance = table_codec [(demo_record 0x0A000009 (CHR ''A'') 20, [1]),
      (demo_record 0x0A00000A (CHR ''B'') 10, [2]), (demo_record 0x0A00000B (CHR ''C'') 5, [3])],
    cd_legacy = table_codec [(\<lparr> lo_admin_port_policy = None, lo_ready = Some True \<rparr>, [1])],
    cd_bool = table_codec [(True, [0xc3]), (False, [0xc2])],
    cd_policy = table_codec [(None, [0xc0]), (Some demo_policy, [0x81])],
    cd_u64 = \<lparr> c_encode = (\<lambda>n. Inr (nat_be 8 n)), c_decode = (\<lambda>bs. Inr (be_nat bs)), c_declared = None \<rparr>,
    cd_status = table_codec [(Up, [0]), (Down, [1])],
    cd_node = table_codec [],
    cd_removal = table_codec [(\<lparr> pr_removed_at = 50, pr_removed_by = 1 \<rparr>, [1])],
    cd_gc = table_codec [(\<lparr> gc_writes_per_collection = 100 \<rparr>, [1])],
    cd_string = \<lparr> c_encode = (\<lambda>s. Inr (str_bytes s)),
      c_decode = (\<lambda>bs. case str_from_utf8 bs of None \<Rightarrow> Inl [''invalid utf-8''] | Some s \<Rightarrow> Inr s),
      c_declared = None \<rparr>,
    cd_lock = table_codec [(\<lparr> lk_started_at = 100, lk_started_by = 1 \<rparr>, [1]),
      (\<lparr> lk_started_at = 200, lk_started_by = 1 \<rparr>, [2])],
    cd_zt = table_codec [], cd_cert = table_codec [], cd_credentials = table_codec [],
    cd_acme_attestation = table_codec [], cd_cert_attestation = table_codec [],
    cd_dns = table_codec [], cd_certbot = table_codec [],
    kv_url_parse = (\<lambda>_. Inl [''relative URL without a base'']) \<rparr>"

definition demo_node :: mem_node where
  "demo_node = \<lparr> mn_data = [], mn_peers = [] \<rparr>"

definition demo_kv :: "mem_node KvStore" where
  "demo_kv = \<lparr> kv_persistent = demo_node, kv_ephemeral = demo_node, kv_my_node_id = 1 \<rparr>"

lemma demo_env_wave [simp]: "kv_wave (demo_env fails) = mem_wave fails"
  by (simp add: demo_env_def)

section \<open>Properties\<close>

text \<open>
  C38. A registration rewrites the whole instance record and still cannot touch what an operator
  decided: neither the traffic gate nor the port-policy override of any instance changes, whether
  the write succeeds or fails.
\<close>

theorem sync_instance_keeps_overrides:
  assumes "wave_laws (kv_wave E)" "sync_instance E i data kv = (r, kv')"
  shows "instance_gate E kv' j = instance_gate E kv j \<and>
    instance_port_policy_override E kv' j = instance_port_policy_override E kv j"
  using sync_instance_frame [OF assms(1), of i data kv j] assms(2) by simp

theorem sync_instance_keeps_overrides_witness:
  "let E = demo_env (\<lambda>_. False); kv = snd (set_instance_gate E ''a'' False demo_kv) in
   instance_gate E (snd (sync_instance E ''a'' (demo_record 0x0A000009 (CHR ''A'') 20) kv)) ''a'' = Inr (Some False)"
proof -
  let ?E = "demo_env (\<lambda>_. False)"
  let ?kv = "snd (set_instance_gate ?E ''a'' False demo_kv)"
  have "instance_gate ?E ?kv ''a'' = Inr (Some False)" by code_simp
  then show ?thesis
    using sync_instance_keeps_overrides [of ?E "''a''" "demo_record 0x0A000009 (CHR ''A'') 20" ?kv
        "fst (sync_instance ?E ''a'' (demo_record 0x0A000009 (CHR ''A'') 20) ?kv)"
        "snd (sync_instance ?E ''a'' (demo_record 0x0A000009 (CHR ''A'') 20) ?kv)" "''a''"]
      mem_wave_laws by simp
qed

text \<open>
  What an operator sets is what every reader sees, the two overrides are independent keys, and
  clearing a port policy leaves the explicit answer \<open>Cleared\<close> rather than no answer.
\<close>

theorem operator_overrides_round_trip:
  assumes "wave_laws (kv_wave E)" "codec_rt (cd_bool E) ready" "codec_rt (cd_policy E) policy"
    and "set_instance_gate E i ready kv = (Inr (), kv1)"
    and "set_instance_port_policy_override E i policy kv1 = (Inr (), kv2)"
  shows "instance_gate E kv2 i = Inr (Some ready) \<and>
    instance_port_policy_override E kv2 i = Inr (Some (case policy of None \<Rightarrow> Cleared | Some p \<Rightarrow> SetPolicy p)) \<and>
    (\<forall>j. j \<noteq> i \<longrightarrow> instance_gate E kv2 j = instance_gate E kv j \<and>
      instance_port_policy_override E kv2 j = instance_port_policy_override E kv j)"
  using set_instance_gate_get [OF assms(1,2,4)] set_policy_get [OF assms(1,3,5)]
    set_policy_frame [OF assms(1), where i = i and p = policy and kv = kv1]
    set_instance_gate_frame [OF assms(1), where i = i and b = ready and kv = kv]
    assms(4,5) by simp

theorem operator_overrides_round_trip_witness:
  "instance_port_policy_override (demo_env (\<lambda>_. False))
    (snd (set_instance_port_policy_override (demo_env (\<lambda>_. False)) ''a'' None
      (snd (set_instance_gate (demo_env (\<lambda>_. False)) ''a'' True demo_kv)))) ''a'' = Inr (Some Cleared)"
proof -
  let ?E = "demo_env (\<lambda>_. False)"
  let ?kv1 = "snd (set_instance_gate ?E ''a'' True demo_kv)"
  let ?kv2 = "snd (set_instance_port_policy_override ?E ''a'' None ?kv1)"
  have "set_instance_gate ?E ''a'' True demo_kv = (Inr (), ?kv1)"
    "set_instance_port_policy_override ?E ''a'' None ?kv1 = (Inr (), ?kv2)"
    by code_simp+
  moreover have "codec_rt (cd_bool ?E) True" "codec_rt (cd_policy ?E) None"
    by (simp_all add: codec_rt_def demo_env_def table_codec_def)
  ultimately show ?thesis
    using operator_overrides_round_trip [of ?E True None "''a''" demo_kv ?kv1 ?kv2] mem_wave_laws
    by simp
qed

text \<open>
  C39. Removing an instance attempts all five deletes: whichever of them fail, every key whose own
  delete works is gone afterwards, so a recycled id inherits no override that could be removed.
\<close>

theorem sync_delete_instance_attempts_all:
  assumes "wave_laws (kv_wave E)" "deletes_fail_on (kv_wave E) fails"
  shows "(\<forall>k \<in> {inst_key i, admin_ready_key i, admin_port_policy_key i}. \<not> fails k \<longrightarrow>
      wk_get (kv_wave E) (kv_persistent (snd (sync_delete_instance E i kv))) k = None) \<and>
    (\<forall>k \<in> {conn_key i (kv_my_node_id kv), handshake_key i (kv_my_node_id kv)}. \<not> fails k \<longrightarrow>
      wk_get (kv_wave E) (kv_ephemeral (snd (sync_delete_instance E i kv))) k = None)"
  by (intro conjI ballI impI sync_delete_hides [OF assms]) assumption+

theorem sync_delete_instance_attempts_all_witness:
  "let E = demo_env (\<lambda>k. k = ''inst/a'') in
   instance_gate E (snd (sync_delete_instance E ''a'' (snd (set_instance_gate E ''a'' False demo_kv)))) ''a'' = Inr None"
proof -
  let ?f = "\<lambda>k. k = ''inst/a''"
  let ?E = "demo_env ?f"
  let ?kv = "snd (set_instance_gate ?E ''a'' False demo_kv)"
  have "admin_ready_key ''a'' \<noteq> ''inst/a''" by code_simp
  then have "wk_get (mem_wave ?f) (kv_persistent (snd (sync_delete_instance ?E ''a'' ?kv))) (admin_ready_key ''a'') = None"
    using sync_delete_instance_attempts_all [of ?E ?f "''a''" ?kv] mem_wave_laws mem_deletes_fail by simp
  then show ?thesis
    by (simp add: instance_gate_def decode_strict_def)
qed

text \<open>
  C37. Moving legacy overrides to keys of their own never overwrites a key that already holds an
  answer: a gate or port policy that is set, cleared or unreadable reads the same afterwards.
\<close>

theorem migrate_legacy_keeps_decisions:
  assumes "wave_laws (kv_wave E)" "migrate_legacy_instance_overrides E kv = (moved, kv')"
  shows "(instance_gate E kv i \<noteq> Inr None \<longrightarrow> instance_gate E kv' i = instance_gate E kv i) \<and>
    (instance_port_policy_override E kv i \<noteq> Inr None \<longrightarrow>
      instance_port_policy_override E kv' i = instance_port_policy_override E kv i)"
  using migrate_fold [OF assms(1), where st = "([], kv)" and i = i and ls = "legacy_instance_overrides E kv"]
    assms(2) by (simp add: migrate_legacy_instance_overrides_def)

text \<open>The record \<open>[1]\<close> carries a legacy gate \<open>ready\<close>; the operator has closed the gate since.\<close>

definition demo_legacy_kv :: "mem_node KvStore" where
  "demo_legacy_kv = snd (set_instance_gate (demo_env (\<lambda>_. False)) ''a'' False
    (demo_kv\<lparr> kv_persistent := demo_node\<lparr> mn_data := [(''inst/a'', Some [1])] \<rparr> \<rparr>))"

theorem migrate_legacy_keeps_decisions_witness:
  "legacy_instance_overrides (demo_env (\<lambda>_. False)) demo_legacy_kv =
      [(''a'', \<lparr> lo_admin_port_policy = None, lo_ready = Some True \<rparr>)] \<and>
   instance_gate (demo_env (\<lambda>_. False))
     (snd (migrate_legacy_instance_overrides (demo_env (\<lambda>_. False)) demo_legacy_kv)) ''a'' = Inr (Some False)"
proof -
  let ?E = "demo_env (\<lambda>_. False)"
  have "legacy_instance_overrides ?E demo_legacy_kv = [(''a'', \<lparr> lo_admin_port_policy = None, lo_ready = Some True \<rparr>)]"
    "instance_gate ?E demo_legacy_kv ''a'' = Inr (Some False)"
    by code_simp+
  then show ?thesis
    using migrate_legacy_keeps_decisions [of ?E demo_legacy_kv
        "fst (migrate_legacy_instance_overrides ?E demo_legacy_kv)"
        "snd (migrate_legacy_instance_overrides ?E demo_legacy_kv)" "''a''"] mem_wave_laws
    by simp
qed

text \<open>
  An observation dated beyond the drift horizon, whoever wrote it, never counts: the latest
  handshake reported for an instance is a stored value at most \<open>MAX_CLOCK_DRIFT_SECS\<close> ahead of
  the local clock.
\<close>

lemma latest_handshake_bounded:
  assumes "get_instance_latest_handshake E kv now i = Some ts"
  shows "ts \<le> now + MAX_CLOCK_DRIFT_SECS \<and>
    ts \<in> set (iter_decoded_values (kv_wave E) (cd_u64 E) (kv_ephemeral kv) (handshake_prefix i))"
  using list_max_bound [OF assms [unfolded get_instance_latest_handshake_def]]
    drop_future_bound [of ts now id] by simp

definition demo_handshakes :: "mem_node KvStore" where
  "demo_handshakes = demo_kv\<lparr> kv_ephemeral := demo_node\<lparr> mn_data :=
    [(''handshake/a/1'', Some [0, 0, 0, 0, 0, 0, 0, 90]), (''handshake/a/2'', Some [0, 255, 0, 0, 0, 0, 0, 0])] \<rparr> \<rparr>"

end
