(* ===== verification/Gateway_Cluster.thy ===== *)
theory Gateway_Cluster
  imports Gateway_Kv_Facts
begin

text \<open>
  The cluster-wide records of the store (\<^verbatim>\<open>gateway/src/kv/mod.rs\<close>): peers and their removal
  markers, tombstone collection and its trigger (\<^verbatim>\<open>gateway/src/main_service.rs\<close>), DNS
  credentials, certbot configuration, domains, certificates, attestations, and the renew and
  rotation leases.
\<close>

section \<open>Tombstone collection\<close>

definition collect_tombstone_garbage :: "'s kv_env \<Rightarrow> 's KvStore \<Rightarrow> CollectedTombstones kv_res \<times> 's KvStore" where
  "collect_tombstone_garbage E kv =
    (let (p, kv1) = on_persistent (wk_collect (kv_wave E)) kv;
         persistent = with_context ''failed to collect tombstones from the persistent store'' p;
         (e, kv2) = on_ephemeral (wk_collect (kv_wave E)) kv1;
         ephemeral = with_context ''failed to collect tombstones from the ephemeral store'' e
     in (case (persistent, ephemeral) of
           (Inr a, Inr b) \<Rightarrow> Inr \<lparr> ct_persistent = a, ct_ephemeral = b \<rparr>
         | (Inl err, Inr _) \<Rightarrow> Inl err
         | (Inr _, Inl err) \<Rightarrow> Inl err
         | (Inl pe, Inl ee) \<Rightarrow> Inl ((''the ephemeral store failed too: '' @ err_display ee) # pe), kv2))"

definition sum_acks :: "nat list \<Rightarrow> nat" where
  "sum_acks xs = foldl (\<lambda>acc seq. sat_add 64 acc seq) 0 xs"

definition replicated_writes :: "'s kv_env \<Rightarrow> 's KvStore \<Rightarrow> ReplicatedWrites" where
  "replicated_writes E kv =
    \<lparr> rw_persistent = sum_acks (wk_acks (kv_wave E) (kv_persistent kv)),
      rw_ephemeral = sum_acks (wk_acks (kv_wave E) (kv_ephemeral kv)) \<rparr>"

definition peer_ids :: "'s kv_env \<Rightarrow> 's KvStore \<Rightarrow> node_id btree_set" where
  "peer_ids E kv = bs_of_list (wk_peers (kv_wave E) (kv_persistent kv))"

definition get_tombstone_gc_config :: "'s kv_env \<Rightarrow> 's KvStore \<Rightarrow> GlobalTombstoneGcConfig option kv_res" where
  "get_tombstone_gc_config E kv =
    decode_strict (kv_wave E) (cd_gc E) (kv_persistent kv) GLOBAL_TOMBSTONE_GC_CONFIG"

definition set_tombstone_gc_config ::
  "'s kv_env \<Rightarrow> GlobalTombstoneGcConfig \<Rightarrow> 's KvStore \<Rightarrow> unit kv_res \<times> 's KvStore" where
  "set_tombstone_gc_config E cfg =
    on_persistent (\<lambda>s. put_encoded E (cd_gc E) s GLOBAL_TOMBSTONE_GC_CONFIG cfg True)"

definition tombstone_collection_due :: "ReplicatedWrites option \<Rightarrow> ReplicatedWrites \<Rightarrow> nat \<Rightarrow> bool" where
  "tombstone_collection_due prev now n =
    (case prev of
       None \<Rightarrow> True
     | Some l \<Rightarrow> rw_persistent l div n < rw_persistent now div n \<or> rw_ephemeral l div n < rw_ephemeral now div n)"

text \<open>The loop-carried variables of the collection task and one period of it.\<close>

record gc_task =
  gt_last :: "ReplicatedWrites option"
  gt_peers :: "node_id btree_set"
  gt_override_unreadable :: bool

definition gc_round :: "'s kv_env \<Rightarrow> nat \<Rightarrow> gc_task \<times> 's KvStore \<Rightarrow> gc_task \<times> 's KvStore" where
  "gc_round E default_pace st =
    (let t = fst st; kv = snd st in
     case get_tombstone_gc_config E kv of
       Inl _ \<Rightarrow> (t\<lparr> gt_override_unreadable := True \<rparr>, kv)
     | Inr stored \<Rightarrow>
        (let t1 = t\<lparr> gt_override_unreadable := False \<rparr>;
             pace = (case stored of None \<Rightarrow> default_pace | Some c \<Rightarrow> gc_writes_per_collection c)
         in if pace = 0 then (t1\<lparr> gt_last := None \<rparr>, kv)
            else
              (let now_peers = peer_ids E kv;
                   prev = (if list_all (\<lambda>p. p \<in> set now_peers) (gt_peers t1) then gt_last t1 else None);
                   t2 = t1\<lparr> gt_last := prev, gt_peers := now_peers \<rparr>;
                   now = replicated_writes E kv
               in if \<not> tombstone_collection_due prev now pace then (t2, kv)
                  else (case collect_tombstone_garbage E kv of
                     (Inr _, kv') \<Rightarrow> (t2\<lparr> gt_last := Some now \<rparr>, kv')
                   | (Inl _, kv') \<Rightarrow> (t2, kv')))))"

section \<open>Peers\<close>

definition add_peer :: "'s kv_env \<Rightarrow> node_id \<Rightarrow> 's KvStore \<Rightarrow> unit kv_res \<times> 's KvStore" where
  "add_peer E n kv =
    (case on_persistent (\<lambda>s. wk_add_peer (kv_wave E) s n) kv of
       (Inl e, kv1) \<Rightarrow> (Inl e, kv1)
     | (Inr _, kv1) \<Rightarrow> on_ephemeral (\<lambda>s. wk_add_peer (kv_wave E) s n) kv1)"

definition remove_peer :: "'s kv_env \<Rightarrow> node_id \<Rightarrow> 's KvStore \<Rightarrow> bool kv_res \<times> 's KvStore" where
  "remove_peer E n kv =
    (case on_persistent (\<lambda>s. wk_remove_peer (kv_wave E) s n) kv of
       (Inl e, kv1) \<Rightarrow> (Inl e, kv1)
     | (Inr removed, kv1) \<Rightarrow>
        (case on_ephemeral (\<lambda>s. wk_remove_peer (kv_wave E) s n) kv1 of
           (Inl e, kv2) \<Rightarrow> (Inl e, kv2)
         | (Inr _, kv2) \<Rightarrow> (Inr removed, kv2)))"

definition mark_peer_removed :: "'s kv_env \<Rightarrow> nat \<Rightarrow> node_id \<Rightarrow> 's KvStore \<Rightarrow> unit kv_res \<times> 's KvStore" where
  "mark_peer_removed E now n kv =
    on_persistent (\<lambda>s. put_encoded E (cd_removal E) s (peer_removed_key n)
      \<lparr> pr_removed_at = now, pr_removed_by = kv_my_node_id kv \<rparr> True) kv"

definition clear_peer_removed :: "'s kv_env \<Rightarrow> node_id \<Rightarrow> 's KvStore \<Rightarrow> bool kv_res \<times> 's KvStore" where
  "clear_peer_removed E n kv =
    (let (r, kv') = on_persistent (\<lambda>s. wk_delete (kv_wave E) s (peer_removed_key n)) kv
     in (rbind r (\<lambda>previous. Inr (live_entry (kv_wave E) previous)), kv'))"

definition is_peer_removed :: "'s kv_env \<Rightarrow> 's KvStore \<Rightarrow> node_id \<Rightarrow> bool" where
  "is_peer_removed E kv n =
    (case decode_strict (kv_wave E) (cd_removal E) (kv_persistent kv) (peer_removed_key n) of
       Inr record \<Rightarrow> record \<noteq> None
     | Inl _ \<Rightarrow> True)"

definition peer_addr_tombstoned :: "'s kv_env \<Rightarrow> 's KvStore \<Rightarrow> node_id \<Rightarrow> bool" where
  "peer_addr_tombstoned E kv n =
    (case wk_get_including_tombstones (kv_wave E) (kv_persistent kv) (peer_addr_key n) of
       None \<Rightarrow> False | Some entry \<Rightarrow> wk_is_deleted (kv_wave E) entry)"

definition prune_removed_peers :: "'s kv_env \<Rightarrow> 's KvStore \<Rightarrow> 's KvStore" where
  "prune_removed_peers E kv =
    fold (\<lambda>n kv. if \<not> peer_addr_tombstoned E kv n \<and> \<not> is_peer_removed E kv n then kv
                 else snd (remove_peer E n kv))
      (wk_peers (kv_wave E) (kv_persistent kv)) kv"

definition validate_peer_url :: "'s kv_env \<Rightarrow> string \<Rightarrow> unit kv_res" where
  "validate_peer_url E url =
    rbind (with_context ''invalid peer URL'' (kv_url_parse E url)) (\<lambda>parsed.
    rbind (ensure (url_scheme parsed = ''http'' \<or> url_scheme parsed = ''https'')
      [''peer URL scheme must be http or https'']) (\<lambda>_.
    rbind (ensure (url_host parsed \<noteq> None) [''peer URL must include a host'']) (\<lambda>_.
      ensure (url_username parsed = [] \<and> url_password parsed = None)
        [''peer URL must not contain credentials''])))"

definition register_peer_url :: "'s kv_env \<Rightarrow> node_id \<Rightarrow> string \<Rightarrow> 's KvStore \<Rightarrow> unit kv_res \<times> 's KvStore" where
  "register_peer_url E n url kv =
    (case validate_peer_url E url of
       Inl e \<Rightarrow> (Inl e, kv)
     | Inr _ \<Rightarrow>
        (case on_persistent (\<lambda>s. put_encoded E (cd_string E) s (peer_addr_key n) url False) kv of
           (Inl e, kv1) \<Rightarrow> (Inl e, kv1)
         | (Inr _, kv1) \<Rightarrow> (Inr (), snd (add_peer E n kv1))))"

definition get_peer_url :: "'s kv_env \<Rightarrow> 's KvStore \<Rightarrow> node_id \<Rightarrow> string option" where
  "get_peer_url E kv n = decode_at (kv_wave E) (cd_string E) (kv_persistent kv) (peer_addr_key n)"

definition get_peer_uuid :: "'s kv_env \<Rightarrow> 's KvStore \<Rightarrow> node_id \<Rightarrow> bytes option" where
  "get_peer_uuid E kv n =
    map_option nd_uuid (decode_at (kv_wave E) (cd_node E) (kv_persistent kv) (node_info_key n))"

definition update_peer_last_seen :: "'s kv_env \<Rightarrow> nat \<Rightarrow> node_id \<Rightarrow> 's KvStore \<Rightarrow> 's KvStore" where
  "update_peer_last_seen E now n kv =
    snd (on_ephemeral (\<lambda>s. put_encoded E (cd_u64 E) s (last_seen_node_key n (kv_my_node_id kv)) now False) kv)"

definition get_all_peer_addrs :: "'s kv_env \<Rightarrow> 's KvStore \<Rightarrow> (node_id, string) btree_map" where
  "get_all_peer_addrs E kv =
    bt_of_list (List.map_filter (\<lambda>(key, url).
      Option.bind (strip_prefix PEER_ADDR_PREFIX key) (\<lambda>r. map_option (\<lambda>n. (n, url)) (parse_uint 32 r)))
      (iter_decoded (kv_wave E) (cd_string E) (kv_persistent kv) PEER_ADDR_PREFIX))"

section \<open>DNS credentials and certbot configuration\<close>

definition dns_cred_key :: "string \<Rightarrow> string" where
  "dns_cred_key cred_id = ''dns_cred/'' @ cred_id"

definition get_dns_credential :: "'s kv_env \<Rightarrow> 's KvStore \<Rightarrow> string \<Rightarrow> DnsCredential option kv_res" where
  "get_dns_credential E kv cred_id =
    decode_strict (kv_wave E) (cd_dns E) (kv_persistent kv) (dns_cred_key cred_id)"

definition save_dns_credential :: "'s kv_env \<Rightarrow> DnsCredential \<Rightarrow> 's KvStore \<Rightarrow> unit kv_res \<times> 's KvStore" where
  "save_dns_credential E cred =
    on_persistent (\<lambda>s. put_encoded E (cd_dns E) s (dns_cred_key (dc_id cred)) cred True)"

definition delete_dns_credential :: "'s kv_env \<Rightarrow> string \<Rightarrow> 's KvStore \<Rightarrow> unit kv_res \<times> 's KvStore" where
  "delete_dns_credential E cred_id kv =
    (let (r, kv') = on_persistent (\<lambda>s. wk_delete (kv_wave E) s (dns_cred_key cred_id)) kv
     in (rbind r (\<lambda>_. Inr ()), kv'))"

definition list_dns_credentials :: "'s kv_env \<Rightarrow> 's KvStore \<Rightarrow> DnsCredential list" where
  "list_dns_credentials E kv = iter_decoded_values (kv_wave E) (cd_dns E) (kv_persistent kv) ''dns_cred/''"

definition get_default_dns_credential_id :: "'s kv_env \<Rightarrow> 's KvStore \<Rightarrow> string option kv_res" where
  "get_default_dns_credential_id E kv =
    decode_strict (kv_wave E) (cd_string E) (kv_persistent kv) ''dns_cred_default''"

definition set_default_dns_credential_id :: "'s kv_env \<Rightarrow> string \<Rightarrow> 's KvStore \<Rightarrow> unit kv_res \<times> 's KvStore" where
  "set_default_dns_credential_id E cred_id =
    on_persistent (\<lambda>s. put_encoded E (cd_string E) s ''dns_cred_default'' cred_id False)"

definition get_default_dns_credential :: "'s kv_env \<Rightarrow> 's KvStore \<Rightarrow> DnsCredential option kv_res" where
  "get_default_dns_credential E kv =
    rbind (get_default_dns_credential_id E kv) (\<lambda>i.
      case i of None \<Rightarrow> Inr None | Some cred_id \<Rightarrow> get_dns_credential E kv cred_id)"

definition default_certbot_config :: GlobalCertbotConfig where
  "default_certbot_config = \<lparr> cb_renew_interval = 12 * 3600, cb_renew_before_expiration = 30 * 86400,
    cb_renew_timeout = 300, cb_acme_url = [], cb_issuer_domain_name = [] \<rparr>"

definition get_certbot_config :: "'s kv_env \<Rightarrow> 's KvStore \<Rightarrow> GlobalCertbotConfig kv_res" where
  "get_certbot_config E kv =
    rbind (decode_strict (kv_wave E) (cd_certbot E) (kv_persistent kv) ''global/certbot_config'')
      (\<lambda>c. Inr (case c of None \<Rightarrow> default_certbot_config | Some x \<Rightarrow> x))"

definition set_certbot_config :: "'s kv_env \<Rightarrow> GlobalCertbotConfig \<Rightarrow> 's KvStore \<Rightarrow> unit kv_res \<times> 's KvStore" where
  "set_certbot_config E cfg =
    on_persistent (\<lambda>s. put_encoded E (cd_certbot E) s ''global/certbot_config'' cfg True)"

section \<open>Domains and certificates\<close>

definition zt_domain_config_key :: "string \<Rightarrow> string" where
  "zt_domain_config_key domain = CERT_PREFIX @ domain @ ''/config''"

definition cert_data_key :: "string \<Rightarrow> string" where
  "cert_data_key domain = CERT_PREFIX @ domain @ ''/data''"

definition cert_lock_key :: "string \<Rightarrow> string" where
  "cert_lock_key domain = CERT_PREFIX @ domain @ ''/lock''"

definition cert_attestation_prefix :: "string \<Rightarrow> string" where
  "cert_attestation_prefix domain = CERT_PREFIX @ domain @ ''/attestation/''"

definition cert_attestation_latest_key :: "string \<Rightarrow> string" where
  "cert_attestation_latest_key domain = CERT_PREFIX @ domain @ ''/attestation/latest''"

definition cert_attestation_history_key :: "string \<Rightarrow> nat \<Rightarrow> string" where
  "cert_attestation_history_key domain timestamp = CERT_PREFIX @ domain @ ''/attestation/'' @ show_nat timestamp"

definition ends_with :: "string \<Rightarrow> string \<Rightarrow> bool" where
  "ends_with s t = (length t \<le> length s \<and> drop (length s - length t) s = t)"

definition get_zt_domain_config :: "'s kv_env \<Rightarrow> 's KvStore \<Rightarrow> string \<Rightarrow> ZtDomainConfig option" where
  "get_zt_domain_config E kv domain =
    decode_at (kv_wave E) (cd_zt E) (kv_persistent kv) (zt_domain_config_key domain)"

definition zt_domain_config_exists :: "'s kv_env \<Rightarrow> 's KvStore \<Rightarrow> string \<Rightarrow> bool" where
  "zt_domain_config_exists E kv domain =
    (wk_get (kv_wave E) (kv_persistent kv) (zt_domain_config_key domain) \<noteq> None)"

definition save_zt_domain_config :: "'s kv_env \<Rightarrow> ZtDomainConfig \<Rightarrow> 's KvStore \<Rightarrow> unit kv_res \<times> 's KvStore" where
  "save_zt_domain_config E cfg =
    on_persistent (\<lambda>s. put_encoded E (cd_zt E) s (zt_domain_config_key (zt_domain cfg)) cfg True)"

definition delete_zt_domain_config :: "'s kv_env \<Rightarrow> string \<Rightarrow> 's KvStore \<Rightarrow> unit kv_res \<times> 's KvStore" where
  "delete_zt_domain_config E domain kv =
    (let (r, kv') = on_persistent (\<lambda>s. wk_delete (kv_wave E) s (zt_domain_config_key domain)) kv
     in (rbind r (\<lambda>_. Inr ()), kv'))"

definition list_zt_domain_configs :: "'s kv_env \<Rightarrow> 's KvStore \<Rightarrow> ZtDomainConfig list" where
  "list_zt_domain_configs E kv =
    List.map_filter (\<lambda>(key, entry).
      if \<not> ends_with key ''/config'' then None
      else Option.bind (e_value entry) (\<lambda>v.
           Option.bind (res_ok (kv_decode (cd_zt E) v)) (\<lambda>cfg.
           Option.bind (parse_cert_domain key) (\<lambda>key_domain.
             if key_domain \<noteq> zt_domain cfg then None else Some cfg))))
      (wk_iter_by_prefix (kv_wave E) (kv_persistent kv) CERT_PREFIX)"

text \<open>Ordering of \<^verbatim>\<open>Option<u32>\<close> (\<^verbatim>\<open>None\<close> first) and whether the comparison of
  \<^verbatim>\<open>get_best_zt_domain\<close> puts \<open>a\<close> strictly above \<open>b\<close>.\<close>

fun opt_less :: "nat option \<Rightarrow> nat option \<Rightarrow> bool" where
  "opt_less None (Some _) = True"
| "opt_less (Some m) (Some n) = (m < n)"
| "opt_less _ None = False"

definition zt_greater :: "ZtDomainConfig \<Rightarrow> ZtDomainConfig \<Rightarrow> bool" where
  "zt_greater a b =
    (zt_priority b < zt_priority a \<or> zt_priority a = zt_priority b \<and> opt_less (zt_node a) (zt_node b))"

text \<open>\<^verbatim>\<open>Iterator::max_by\<close>: the last of the maximal elements.\<close>

fun max_by :: "('a \<Rightarrow> 'a \<Rightarrow> bool) \<Rightarrow> 'a list \<Rightarrow> 'a option" where
  "max_by gt [] = None"
| "max_by gt (x # xs) = Some (foldl (\<lambda>acc y. if gt acc y then acc else y) x xs)"

definition get_best_zt_domain :: "'s kv_env \<Rightarrow> 's KvStore \<Rightarrow> (string \<times> 16 word) option" where
  "get_best_zt_domain E kv =
    map_option (\<lambda>c. (zt_domain c, zt_port c))
      (max_by zt_greater (filter (\<lambda>c. zt_node c = None \<or> zt_node c = Some (kv_my_node_id kv))
        (list_zt_domain_configs E kv)))"

definition get_cert_data :: "'s kv_env \<Rightarrow> 's KvStore \<Rightarrow> string \<Rightarrow> CertData option" where
  "get_cert_data E kv domain = decode_at (kv_wave E) (cd_cert E) (kv_persistent kv) (cert_data_key domain)"

definition save_cert_data :: "'s kv_env \<Rightarrow> string \<Rightarrow> CertData \<Rightarrow> 's KvStore \<Rightarrow> unit kv_res \<times> 's KvStore" where
  "save_cert_data E domain data =
    on_persistent (\<lambda>s. put_encoded E (cd_cert E) s (cert_data_key domain) data False)"

definition load_all_cert_data :: "'s kv_env \<Rightarrow> 's KvStore \<Rightarrow> (string, CertData) btree_map" where
  "load_all_cert_data E kv =
    bt_of_list (List.map_filter (\<lambda>(key, entry).
      if \<not> ends_with key ''/data'' then None
      else Option.bind (parse_cert_domain key) (\<lambda>domain.
           Option.bind (e_value entry) (\<lambda>v.
             map_option (\<lambda>data. (domain, data)) (res_ok (kv_decode (cd_cert E) v)))))
      (wk_iter_by_prefix (kv_wave E) (kv_persistent kv) CERT_PREFIX))"

definition get_acme_credentials :: "'s kv_env \<Rightarrow> 's KvStore \<Rightarrow> CertCredentials option kv_res" where
  "get_acme_credentials E kv =
    with_context ''corrupt ACME credentials record in KvStore''
      (decode_strict (kv_wave E) (cd_credentials E) (kv_persistent kv) ''global/acme_credentials'')"

definition save_acme_credentials :: "'s kv_env \<Rightarrow> CertCredentials \<Rightarrow> 's KvStore \<Rightarrow> unit kv_res \<times> 's KvStore" where
  "save_acme_credentials E creds =
    on_persistent (\<lambda>s. put_encoded E (cd_credentials E) s ''global/acme_credentials'' creds False)"

definition get_acme_attestation :: "'s kv_env \<Rightarrow> 's KvStore \<Rightarrow> AcmeAttestation option kv_res" where
  "get_acme_attestation E kv =
    decode_strict (kv_wave E) (cd_acme_attestation E) (kv_persistent kv) ''global/acme_attestation''"

definition save_acme_attestation :: "'s kv_env \<Rightarrow> AcmeAttestation \<Rightarrow> 's KvStore \<Rightarrow> unit kv_res \<times> 's KvStore" where
  "save_acme_attestation E att =
    on_persistent (\<lambda>s. put_encoded E (cd_acme_attestation E) s ''global/acme_attestation'' att False)"

section \<open>Leases\<close>

definition GLOBAL_ACME_ROTATION_LOCK :: string where
  "GLOBAL_ACME_ROTATION_LOCK = ''global/acme_rotation_lock''"

definition try_acquire_lock ::
  "'s kv_env \<Rightarrow> nat \<Rightarrow> string \<Rightarrow> nat \<Rightarrow> 's KvStore \<Rightarrow> CertRenewLock option \<times> 's KvStore" where
  "try_acquire_lock E now key lock_timeout_secs kv =
    (let held = (case decode_at (kv_wave E) (cd_lock E) (kv_persistent kv) key of
           None \<Rightarrow> False
         | Some existing \<Rightarrow> now < sat_add 64 (lk_started_at existing) lock_timeout_secs)
     in if held then (None, kv)
        else
          (let lock = \<lparr> lk_started_at = now, lk_started_by = kv_my_node_id kv \<rparr> in
           case on_persistent (\<lambda>s. put_encoded E (cd_lock E) s key lock False) kv of
             (Inl _, kv') \<Rightarrow> (None, kv')
           | (Inr _, kv') \<Rightarrow> (Some lock, kv')))"

definition release_lock ::
  "'s kv_env \<Rightarrow> string \<Rightarrow> CertRenewLock \<Rightarrow> 's KvStore \<Rightarrow> unit kv_res \<times> 's KvStore" where
  "release_lock E key acquired kv =
    (let del = (let (r, kv') = on_persistent (\<lambda>s. wk_delete (kv_wave E) s key) kv
                in (rbind r (\<lambda>_. Inr ()), kv'))
     in case decode_at (kv_wave E) (cd_lock E) (kv_persistent kv) key of
          Some current \<Rightarrow> if current \<noteq> acquired then (Inr (), kv) else del
        | None \<Rightarrow> del)"

definition try_acquire_cert_lock ::
  "'s kv_env \<Rightarrow> nat \<Rightarrow> string \<Rightarrow> nat \<Rightarrow> 's KvStore \<Rightarrow> CertRenewLock option \<times> 's KvStore" where
  "try_acquire_cert_lock E now domain = try_acquire_lock E now (cert_lock_key domain)"

definition release_cert_lock ::
  "'s kv_env \<Rightarrow> string \<Rightarrow> CertRenewLock \<Rightarrow> 's KvStore \<Rightarrow> unit kv_res \<times> 's KvStore" where
  "release_cert_lock E domain = release_lock E (cert_lock_key domain)"

definition force_release_cert_lock :: "'s kv_env \<Rightarrow> string \<Rightarrow> 's KvStore \<Rightarrow> unit kv_res \<times> 's KvStore" where
  "force_release_cert_lock E domain kv =
    (let (r, kv') = on_persistent (\<lambda>s. wk_delete (kv_wave E) s (cert_lock_key domain)) kv
     in (rbind r (\<lambda>_. Inr ()), kv'))"

definition try_acquire_rotation_lock ::
  "'s kv_env \<Rightarrow> nat \<Rightarrow> nat \<Rightarrow> 's KvStore \<Rightarrow> CertRenewLock option \<times> 's KvStore" where
  "try_acquire_rotation_lock E now = try_acquire_lock E now GLOBAL_ACME_ROTATION_LOCK"

definition release_rotation_lock :: "'s kv_env \<Rightarrow> CertRenewLock \<Rightarrow> 's KvStore \<Rightarrow> unit kv_res \<times> 's KvStore" where
  "release_rotation_lock E = release_lock E GLOBAL_ACME_ROTATION_LOCK"

section \<open>Certificate attestations\<close>

definition get_cert_attestation_latest :: "'s kv_env \<Rightarrow> 's KvStore \<Rightarrow> string \<Rightarrow> CertAttestation option" where
  "get_cert_attestation_latest E kv domain =
    decode_at (kv_wave E) (cd_cert_attestation E) (kv_persistent kv) (cert_attestation_latest_key domain)"

definition save_cert_attestation ::
  "'s kv_env \<Rightarrow> string \<Rightarrow> CertAttestation \<Rightarrow> 's KvStore \<Rightarrow> unit kv_res \<times> 's KvStore" where
  "save_cert_attestation E domain att kv =
    (case on_persistent (\<lambda>s. put_encoded E (cd_cert_attestation E) s
         (cert_attestation_history_key domain (ca_generated_at att)) att False) kv of
       (Inl e, kv1) \<Rightarrow> (Inl e, kv1)
     | (Inr _, kv1) \<Rightarrow>
        on_persistent (\<lambda>s. put_encoded E (cd_cert_attestation E) s
          (cert_attestation_latest_key domain) att False) kv1)"

definition list_cert_attestations :: "'s kv_env \<Rightarrow> 's KvStore \<Rightarrow> string \<Rightarrow> CertAttestation list" where
  "list_cert_attestations E kv domain =
    sort_key (\<lambda>a. - int (ca_generated_at a)) (List.map_filter (\<lambda>(key, entry).
      if key = cert_attestation_latest_key domain then None
      else Option.bind (e_value entry) (\<lambda>v. res_ok (kv_decode (cd_cert_attestation E) v)))
      (wk_iter_by_prefix (kv_wave E) (kv_persistent kv) (cert_attestation_prefix domain)))"

section \<open>Facts about leases and markers\<close>

lemma max_by_foldl:
  assumes trans: "\<And>a b c. \<not> gt a b \<Longrightarrow> \<not> gt b c \<Longrightarrow> \<not> gt a c"
    and asym: "\<And>a b. gt a b \<Longrightarrow> \<not> gt b a"
  shows "foldl (\<lambda>acc y. if gt acc y then acc else y) x xs \<in> set (x # xs) \<and>
    (\<forall>y \<in> set (x # xs). \<not> gt y (foldl (\<lambda>acc y. if gt acc y then acc else y) x xs))"
proof (induction xs arbitrary: x)
  case Nil
  then show ?case using asym by auto
next
  case (Cons y ys)
  show ?case
  proof (cases "gt x y")
    case True
    let ?m = "foldl (\<lambda>acc y. if gt acc y then acc else y) x ys"
    have IH: "?m \<in> set (x # ys)" "\<forall>z \<in> set (x # ys). \<not> gt z ?m" using Cons by auto
    moreover have "\<not> gt y ?m" using trans [of y x ?m] asym [OF True] IH(2) by auto
    ultimately show ?thesis using True by auto
  next
    case False
    let ?m = "foldl (\<lambda>acc y. if gt acc y then acc else y) y ys"
    have IH: "?m \<in> set (y # ys)" "\<forall>z \<in> set (y # ys). \<not> gt z ?m" using Cons by auto
    moreover have "\<not> gt x ?m" using trans [of x y ?m] False IH(2) by auto
    ultimately show ?thesis using False by auto
  qed
qed

lemma opt_less_iff: "opt_less a b \<longleftrightarrow> (case (a, b) of (None, Some _) \<Rightarrow> True | (Some m, Some n) \<Rightarrow> m < n | _ \<Rightarrow> False)"
  by (cases a; cases b) auto

lemma zt_greater_weak_order:
  "\<not> zt_greater a b \<Longrightarrow> \<not> zt_greater b c \<Longrightarrow> \<not> zt_greater a c"
  "zt_greater a b \<Longrightarrow> \<not> zt_greater b a"
  by (auto simp: zt_greater_def opt_less_iff split: option.splits)

lemma max_by_zt:
  assumes "max_by zt_greater cs = Some c"
  shows "c \<in> set cs \<and> (\<forall>d \<in> set cs. \<not> zt_greater d c)"
proof (cases cs)
  case (Cons x xs)
  have "foldl (\<lambda>acc y. if zt_greater acc y then acc else y) x xs \<in> set (x # xs) \<and>
    (\<forall>y \<in> set (x # xs). \<not> zt_greater y (foldl (\<lambda>acc y. if zt_greater acc y then acc else y) x xs))"
    by (rule max_by_foldl) (rule zt_greater_weak_order; assumption)+
  then show ?thesis using assms Cons by auto
qed (use assms in simp)

lemma max_by_None: "max_by gt cs = None \<longleftrightarrow> cs = []"
  by (cases cs) auto

lemma try_acquire_stored:
  assumes "wave_laws (kv_wave E)" "codec_rt (cd_lock E) lock"
    and "try_acquire_lock E now key t kv = (Some lock, kv')"
  shows "decode_at (kv_wave E) (cd_lock E) (kv_persistent kv') key = Some lock"
    "lk_started_at lock = now" "lk_started_by lock = kv_my_node_id kv"
proof -
  have put: "on_persistent (\<lambda>s. put_encoded E (cd_lock E) s key lock False) kv = (Inr (), kv')"
    and "lk_started_at lock = now" "lk_started_by lock = kv_my_node_id kv"
    using assms(3) by (auto simp: try_acquire_lock_def Let_def split: if_splits sum.splits prod.splits)
  then show "lk_started_at lock = now" "lk_started_by lock = kv_my_node_id kv" by simp_all
  show "decode_at (kv_wave E) (cd_lock E) (kv_persistent kv') key = Some lock"
    using put_encoded_replace(2) [OF assms(1) on_persistent_result [OF put] assms(2)] .
qed

lemma decode_at_cong: "wk_get W s k = wk_get W s' k \<Longrightarrow> decode_at W c s k = decode_at W c s' k"
  by (simp add: decode_at_def)

lemma peer_removed_key_inj [simp]: "peer_removed_key m = peer_removed_key n \<longleftrightarrow> m = n"
  by (simp add: peer_removed_key_def show_nat_inj)

lemma is_peer_removed_live:
  "wk_get (kv_wave E) (kv_persistent kv) (peer_removed_key n) = Some e \<Longrightarrow> e_value e = Some bs \<Longrightarrow>
    is_peer_removed E kv n"
  by (cases "kv_decode (cd_removal E) bs")
    (simp_all add: is_peer_removed_def decode_strict_def with_context_def)

lemma is_peer_removed_absent:
  "wk_get (kv_wave E) (kv_persistent kv) (peer_removed_key n) = None \<Longrightarrow> \<not> is_peer_removed E kv n"
  by (simp add: is_peer_removed_def decode_strict_def)

lemma is_peer_removed_cong:
  "wk_get (kv_wave E) (kv_persistent kv') (peer_removed_key n) = wk_get (kv_wave E) (kv_persistent kv) (peer_removed_key n)
    \<Longrightarrow> is_peer_removed E kv' n = is_peer_removed E kv n"
  by (simp add: is_peer_removed_def decode_strict_def)

section \<open>Properties\<close>

text \<open>
  C36. A renew or rotation lease is exclusive on its node until it expires: while the lease taken
  at \<open>t0\<close> is within its timeout, no later attempt succeeds, and a holder whose lease was taken
  over cannot delete its successor's.
\<close>

theorem lock_exclusive:
  assumes "wave_laws (kv_wave E)" "codec_rt (cd_lock E) lock"
    and "try_acquire_lock E t0 key timeout kv = (Some lock, kv')"
    and "t1 < t0 + timeout" "t1 < 2 ^ 64 - 1" "stale \<noteq> lock"
  shows "try_acquire_lock E t1 key timeout kv' = (None, kv') \<and>
    release_lock E key stale kv' = (Inr (), kv')"
  using try_acquire_stored [OF assms(1-3)] assms(4-6)
  by (simp add: try_acquire_lock_def release_lock_def sat_add_def)

theorem lock_exclusive_witness:
  "fst (try_acquire_lock (demo_env (\<lambda>_. False)) 150 ''cert/d/lock'' 60
     (snd (try_acquire_lock (demo_env (\<lambda>_. False)) 100 ''cert/d/lock'' 60 demo_kv))) = None"
proof -
  let ?E = "demo_env (\<lambda>_. False)" and ?l = "\<lparr> lk_started_at = 100, lk_started_by = 1 \<rparr>"
  let ?kv = "snd (try_acquire_lock ?E 100 ''cert/d/lock'' 60 demo_kv)"
  have "try_acquire_lock ?E 100 ''cert/d/lock'' 60 demo_kv = (Some ?l, ?kv)" by code_simp
  moreover have "codec_rt (cd_lock ?E) ?l" by (simp add: codec_rt_def demo_env_def table_codec_def)
  ultimately show ?thesis
    using lock_exclusive [of ?E ?l 100 "''cert/d/lock''" 60 demo_kv ?kv 150 "\<lparr> lk_started_at = 5, lk_started_by = 2 \<rparr>"]
      mem_wave_laws by simp
qed

text \<open>
  Removing a node writes a live marker that reads as removed even if its bytes cannot be
  decoded, marks no other node, and stays until the marker is explicitly cleared.
\<close>

lemma peer_removal_marker:
  assumes "wave_laws (kv_wave E)" "mark_peer_removed E now n kv = (Inr (), kv1)"
    and "clear_peer_removed E n kv1 = (Inr b, kv2)"
  shows "is_peer_removed E kv1 n \<and> \<not> is_peer_removed E kv2 n \<and>
    (\<forall>m. m \<noteq> n \<longrightarrow> is_peer_removed E kv1 m = is_peer_removed E kv m \<and>
      is_peer_removed E kv2 m = is_peer_removed E kv m)"
proof -
  have put: "put_encoded E (cd_removal E) (kv_persistent kv) (peer_removed_key n)
      \<lparr> pr_removed_at = now, pr_removed_by = kv_my_node_id kv \<rparr> True = (Inr (), kv_persistent kv1)"
    using assms(2) unfolding mark_peer_removed_def by (rule on_persistent_result)
  obtain r where del: "wk_delete (kv_wave E) (kv_persistent kv1) (peer_removed_key n) = (Inr r, kv_persistent kv2)"
    using assms(3) unfolding clear_peer_removed_def
    by (auto simp: Let_def rbind_eq_Inr split: prod.splits dest!: on_persistent_result)
  have "is_peer_removed E kv1 n"
    using put_encoded_live [OF assms(1) put] is_peer_removed_live by blast
  moreover have "\<not> is_peer_removed E kv2 n"
    using wave_delete_get [OF assms(1) del] by (rule is_peer_removed_absent)
  moreover have "is_peer_removed E kv1 m = is_peer_removed E kv m" if "m \<noteq> n" for m
    using put_encoded_other [OF assms(1), of "peer_removed_key m" "peer_removed_key n"]
      arg_cong [OF put, of snd, symmetric] that by (intro is_peer_removed_cong) simp
  moreover have "is_peer_removed E kv2 m = is_peer_removed E kv1 m" if "m \<noteq> n" for m
    using wave_delete_other [OF assms(1), of "peer_removed_key m" "peer_removed_key n"]
      arg_cong [OF del, of snd, symmetric] that by (intro is_peer_removed_cong) simp
  ultimately show ?thesis by simp
qed

text \<open>
  The domain announced to a registering CVM is one this node may serve, and none of the
  configured domains this node may serve ranks above it: a higher priority wins, and at equal
  priority a cluster-wide domain wins over one bound to a node.
\<close>

theorem best_zt_domain_is_best:
  assumes "get_best_zt_domain E kv = Some (domain, port)"
  shows "\<exists>c \<in> set (list_zt_domain_configs E kv).
    zt_domain c = domain \<and> zt_port c = port \<and> (zt_node c = None \<or> zt_node c = Some (kv_my_node_id kv)) \<and>
    (\<forall>d \<in> set (list_zt_domain_configs E kv). zt_node d = None \<or> zt_node d = Some (kv_my_node_id kv) \<longrightarrow>
      zt_priority d \<le> zt_priority c \<and>
      (zt_priority d = zt_priority c \<and> zt_node d = None \<longrightarrow> zt_node c = None))"
proof -
  let ?cs = "filter (\<lambda>c. zt_node c = None \<or> zt_node c = Some (kv_my_node_id kv)) (list_zt_domain_configs E kv)"
  obtain c where c: "max_by zt_greater ?cs = Some c" "zt_domain c = domain" "zt_port c = port"
    using assms by (auto simp: get_best_zt_domain_def)
  have "c \<in> set ?cs" "\<forall>d \<in> set ?cs. \<not> zt_greater d c"
    using max_by_zt [OF c(1)] by auto
  then show ?thesis
    using c(2,3) by (intro bexI [of _ c]) (auto simp: zt_greater_def opt_less_iff split: option.splits)
qed

definition demo_zt :: "string \<Rightarrow> node_id option \<Rightarrow> int \<Rightarrow> ZtDomainConfig" where
  "demo_zt d n p = \<lparr> zt_domain = d, zt_dns_cred_id = None, zt_port = 443, zt_node = n, zt_priority = p,
    zt_challenge = Dns01 \<rparr>"

definition demo_zt_env :: "mem_node kv_env" where
  "demo_zt_env = (demo_env (\<lambda>_. False))\<lparr> cd_zt := table_codec
    [(demo_zt ''a'' (Some 1) 5, [1]), (demo_zt ''b'' None 5, [2]), (demo_zt ''c'' (Some 2) 9, [3])] \<rparr>"

definition demo_zt_kv :: "mem_node KvStore" where
  "demo_zt_kv = demo_kv\<lparr> kv_persistent := demo_node\<lparr> mn_data :=
    [(''cert/a/config'', Some [1]), (''cert/b/config'', Some [2]), (''cert/c/config'', Some [3])] \<rparr> \<rparr>"

theorem best_zt_domain_is_best_witness:
  "get_best_zt_domain demo_zt_env demo_zt_kv = Some (''b'', 443) \<and>
    (\<exists>c \<in> set (list_zt_domain_configs demo_zt_env demo_zt_kv). zt_domain c = ''b'' \<and> zt_port c = 443)"
proof -
  have "get_best_zt_domain demo_zt_env demo_zt_kv = Some (''b'', 443)" by code_simp
  with best_zt_domain_is_best [OF this] show ?thesis by blast
qed

end
