(* ===== verification/Gateway_State.thy ===== *)
theory Gateway_State
  imports Gateway_Cluster
begin

text \<open>
  The routing tables of the gateway and the operations of \<^verbatim>\<open>ProxyState\<close> that change them
  (\<^verbatim>\<open>gateway/src/main_service.rs\<close>): registration, address allocation, in-place edits, the operator
  overrides, health observations and removal.  Reads of the clock are arguments (\<open>now\<close> in
  nanoseconds since the epoch, \<open>tick\<close> for \<^verbatim>\<open>Instant\<close>), as is the result of reading the WireGuard
  handshakes.  Connection counters are cells of \<open>st_counters\<close>; a new record gets a fresh cell.
  Log lines are left out, except that \<open>set_ready\<close> says whether it emits its drain warning.
\<close>

section \<open>State\<close>

record AddressInfo =
  ad_ip :: ipv4
  ad_counter :: counter_ref
  ad_instance_id :: string

type_synonym AddressGroup = "AddressInfo list"
type_synonym Handshakes = "(string, nat \<times> nat) btree_map"

record ProxyStateMut =
  ps_apps :: "(string, string btree_set) btree_map"
  ps_instances :: "(string, InstanceInfo) btree_map"
  ps_allocated :: "ipv4 btree_set"
  ps_top_n :: "(string, AddressGroup \<times> nat) btree_map"
  ps_warned :: "(string, nat) btree_map"

record 'net Config =
  cfg_wg :: "'net WgConfig"
  cfg_node_id :: node_id
  cfg_my_url :: string
  cfg_recycle_timeout :: nat
  cfg_connect_top_n :: nat
  cfg_handshake_stale :: nat
  cfg_cache_top_n :: nat
  cfg_health_check_enabled :: bool
  cfg_insecure_localhost :: bool
  cfg_agent_port :: "16 word"
  cfg_ns_prefix :: string

record ('net, 's) ProxyState =
  st_config :: "'net Config"
  st_state :: ProxyStateMut
  st_kv :: "'s KvStore"
  st_counters :: counters
  st_next_counter :: counter_ref
  st_reported_rejections :: "(string, import_error) btree_map"
  st_reported_bad_overrides :: "(string, string) btree_map"

record ('net, 's) gw_env =
  ge_ext :: "'net ext_ops"
  ge_kv :: "'s kv_env"

datatype state_error =
    Instance_id_empty
  | App_id_empty
  | Invalid_public_key import_error
  | Public_key_in_use
  | Registered_to_other_app
  | Ip_pool_exhausted
  | Node_is_down
  | Instance_not_found string
  | App_not_found
  | Handshakes_unreadable kv_error
  | Store_failed kv_error

definition default_state :: ProxyStateMut where
  "default_state = \<lparr> ps_apps = [], ps_instances = [], ps_allocated = [], ps_top_n = [], ps_warned = [] \<rparr>"

abbreviation upd_state :: "(ProxyStateMut \<Rightarrow> ProxyStateMut) \<Rightarrow> ('net, 's) ProxyState \<Rightarrow> ('net, 's) ProxyState" where
  "upd_state f st \<equiv> st\<lparr> st_state := f (st_state st) \<rparr>"

definition instance_of :: "('net, 's) ProxyState \<Rightarrow> string \<Rightarrow> InstanceInfo option" where
  "instance_of st i = bt_get (ps_instances (st_state st)) i"

section \<open>Operations on the tables\<close>

definition app_insert :: "string \<Rightarrow> string \<Rightarrow> ProxyStateMut \<Rightarrow> ProxyStateMut" where
  "app_insert app_id i s = s\<lparr> ps_apps := bt_insert app_id
    (bs_insert i (case bt_get (ps_apps s) app_id of None \<Rightarrow> [] | Some ids \<Rightarrow> ids)) (ps_apps s) \<rparr>"

definition drop_top_n :: "string \<Rightarrow> ProxyStateMut \<Rightarrow> ProxyStateMut" where
  "drop_top_n app_id s = s\<lparr> ps_top_n := bt_remove app_id (ps_top_n s) \<rparr>"

definition set_record :: "string \<Rightarrow> InstanceInfo \<Rightarrow> ProxyStateMut \<Rightarrow> ProxyStateMut" where
  "set_record i info s = s\<lparr> ps_instances := bt_insert i info (ps_instances s) \<rparr>"

definition valid_ip :: "('net, 's) gw_env \<Rightarrow> ('net, 's) ProxyState \<Rightarrow> ipv4 \<Rightarrow> bool" where
  "valid_ip E st ip = is_valid_client_ip (ge_ext E) (cfg_wg (st_config st)) ip"

definition alloc_ip :: "('net, 's) gw_env \<Rightarrow> ('net, 's) ProxyState \<Rightarrow> ipv4 option \<times> ('net, 's) ProxyState" where
  "alloc_ip E st =
    (case List.find (\<lambda>ip. valid_ip E st ip \<and> ip \<notin> set (ps_allocated (st_state st)))
            (net_hosts (ge_ext E) (wg_client_ip_range (cfg_wg (st_config st)))) of
       None \<Rightarrow> (None, st)
     | Some ip \<Rightarrow> (Some ip, upd_state (\<lambda>s. s\<lparr> ps_allocated := bs_insert ip (ps_allocated s) \<rparr>) st))"

definition edit_instance ::
  "string \<Rightarrow> (InstanceInfo \<Rightarrow> 'a \<times> InstanceInfo) \<Rightarrow> ('net, 's) ProxyState \<Rightarrow> 'a option \<times> ('net, 's) ProxyState" where
  "edit_instance i edit st =
    (case instance_of st i of
       None \<Rightarrow> (None, st)
     | Some info \<Rightarrow>
        (let (out, info') = edit info;
             st1 = upd_state (set_record i info') st
         in if routing_inputs info = routing_inputs info' then (Some out, st1)
            else (Some out, upd_state (\<lambda>s.
              let s1 = drop_top_n (ii_app_id info') s
              in if ii_app_id info \<noteq> ii_app_id info' then drop_top_n (ii_app_id info) s1 else s1) st1)))"

definition add_instance :: "('net, 's) gw_env \<Rightarrow> InstanceInfo \<Rightarrow> ('net, 's) ProxyState \<Rightarrow> ('net, 's) ProxyState" where
  "add_instance E info st =
    (let st1 = upd_state (drop_top_n (ii_app_id info)) st;
         (r, kv) = sync_instance (ge_kv E) (ii_id info) (record_of_info info) (st_kv st1)
     in upd_state (\<lambda>s. set_record (ii_id info) info (app_insert (ii_app_id info) (ii_id info) s)) (st1\<lparr> st_kv := kv \<rparr>))"

definition fresh_counter :: "('net, 's) ProxyState \<Rightarrow> counter_ref \<times> ('net, 's) ProxyState" where
  "fresh_counter st = (st_next_counter st,
    st\<lparr> st_counters := (st_counters st)(st_next_counter st := 0), st_next_counter := Suc (st_next_counter st) \<rparr>)"

section \<open>Registration\<close>

text \<open>The closure passed to \<^verbatim>\<open>edit_instance\<close> when an instance registers again.\<close>

definition reregister ::
  "system_time \<Rightarrow> string \<Rightarrow> string \<Rightarrow> ReportedCapabilities \<Rightarrow> InstanceInfo \<Rightarrow> InstanceInfo \<times> InstanceInfo" where
  "reregister now public_key compose_hash reported existing =
    (let pubkey_changed = (ii_public_key existing \<noteq> public_key);
         hc = (case rc_health_check reported of Some b \<Rightarrow> b | None \<Rightarrow> health_check existing);
         e1 = (if pubkey_changed then reset_health existing else existing);
         e2 = set_health_check hc e1;
         e3 = (if pubkey_changed then e2\<lparr> ii_public_key := public_key, ii_reg_time := now \<rparr> else e2);
         e4 = (if ii_port_policy_hash e3 \<noteq> compose_hash
               then e3\<lparr> ii_port_policy := None, ii_port_policy_hash := compose_hash \<rparr> else e3);
         e5 = (if rc_port_policy reported \<noteq> None then e4\<lparr> ii_port_policy := rc_port_policy reported \<rparr> else e4)
     in (e5, e5))"

definition key_in_use :: "('net, 's) ProxyState \<Rightarrow> string \<Rightarrow> string \<Rightarrow> bool" where
  "key_in_use st i public_key =
    list_ex (\<lambda>info. ii_id info \<noteq> i \<and> ii_public_key info = public_key) (bt_values (ps_instances (st_state st)))"

definition rebuild_info ::
  "system_time \<Rightarrow> string \<Rightarrow> string \<Rightarrow> string \<Rightarrow> string \<Rightarrow> ReportedCapabilities \<Rightarrow> InstanceInfo option
    \<Rightarrow> ipv4 \<Rightarrow> counter_ref \<Rightarrow> InstanceInfo" where
  "rebuild_info now i app_id public_key compose_hash reported previous ip counter =
    (case previous of
       Some existing \<Rightarrow> existing\<lparr> ii_ip := ip, ii_public_key := public_key, ii_reg_time := now,
         ii_port_policy := rc_port_policy reported, ii_port_policy_hash := compose_hash,
         ii_connections := counter \<rparr>
     | None \<Rightarrow> \<lparr> ii_id = i, ii_app_id = app_id, ii_ip = ip, ii_public_key = public_key,
         ii_reg_time = now, ii_port_policy = rc_port_policy reported, ii_port_policy_hash = compose_hash,
         ii_admin_port_policy = None, ii_ready = None,
         ii_health = health_from (case rc_health_check reported of Some b \<Rightarrow> b | None \<Rightarrow> False),
         ii_connections = counter \<rparr>)"

definition allocate_client ::
  "('net, 's) gw_env \<Rightarrow> system_time \<Rightarrow> string \<Rightarrow> string \<Rightarrow> string \<Rightarrow> string \<Rightarrow> ReportedCapabilities
    \<Rightarrow> InstanceInfo option \<Rightarrow> ('net, 's) ProxyState \<Rightarrow> (state_error + InstanceInfo) \<times> ('net, 's) ProxyState" where
  "allocate_client E now i app_id public_key compose_hash reported previous st =
    (case alloc_ip E st of
       (None, st1) \<Rightarrow> (Inl Ip_pool_exhausted, st1)
     | (Some ip, st1) \<Rightarrow>
        (let (c, st2) = fresh_counter st1;
             info = rebuild_info now i app_id public_key compose_hash reported previous ip c
         in (Inr info, add_instance E info st2)))"

text \<open>The refusals of \<^verbatim>\<open>new_client_by_id\<close>, in the order the code checks them.\<close>

definition reg_check ::
  "('net, 's) gw_env \<Rightarrow> string \<Rightarrow> string \<Rightarrow> string \<Rightarrow> ('net, 's) ProxyState \<Rightarrow> (state_error + unit)" where
  "reg_check E i app_id public_key st =
    rbind (ensure (i \<noteq> []) Instance_id_empty) (\<lambda>_.
    rbind (ensure (app_id \<noteq> []) App_id_empty) (\<lambda>_.
    rbind (case validate_wg_public_key (ge_ext E) public_key of Inl e \<Rightarrow> Inl (Invalid_public_key e) | Inr _ \<Rightarrow> Inr ()) (\<lambda>_.
    rbind (ensure (\<not> key_in_use st i public_key) Public_key_in_use) (\<lambda>_.
      ensure (case instance_of st i of None \<Rightarrow> True | Some existing \<Rightarrow> ii_app_id existing = app_id)
        Registered_to_other_app))))"

definition new_client_by_id ::
  "('net, 's) gw_env \<Rightarrow> system_time \<Rightarrow> string \<Rightarrow> string \<Rightarrow> string \<Rightarrow> string \<Rightarrow> ReportedCapabilities
    \<Rightarrow> ('net, 's) ProxyState \<Rightarrow> (state_error + InstanceInfo) \<times> ('net, 's) ProxyState" where
  "new_client_by_id E now i app_id public_key compose_hash reported st =
    (case reg_check E i app_id public_key st of
       Inl e \<Rightarrow> (Inl e, st)
     | Inr _ \<Rightarrow>
        (case edit_instance i (reregister now public_key compose_hash reported) st of
           (Some existing, st1) \<Rightarrow>
             if valid_ip E st1 (ii_ip existing)
             then (let (r, kv) = sync_instance (ge_kv E) (ii_id existing) (record_of_info existing) (st_kv st1)
                   in (Inr existing, st1\<lparr> st_kv := kv \<rparr>))
             else allocate_client E now i app_id public_key compose_hash reported (Some existing)
               (upd_state (\<lambda>s. s\<lparr> ps_allocated := bs_remove (ii_ip existing) (ps_allocated s) \<rparr>) st1)
         | (None, st1) \<Rightarrow>
             allocate_client E now i app_id public_key compose_hash reported None st1))"

section \<open>Port policies, gate and health\<close>

definition instance_ip :: "('net, 's) ProxyState \<Rightarrow> string \<Rightarrow> ipv4 option" where
  "instance_ip st i = map_option ii_ip (instance_of st i)"

definition instance_port_policy :: "('net, 's) ProxyState \<Rightarrow> string \<Rightarrow> PortPolicy option" where
  "instance_port_policy st i =
    Option.bind (instance_of st i) (\<lambda>info.
      case ii_admin_port_policy info of Some p \<Rightarrow> Some p | None \<Rightarrow> ii_port_policy info)"

definition instance_port_policy_view :: "('net, 's) ProxyState \<Rightarrow> string \<Rightarrow> PortPolicyView option" where
  "instance_port_policy_view st i =
    map_option (\<lambda>info. \<lparr> instance_reported = ii_port_policy info, admin_override = ii_admin_port_policy info \<rparr>)
      (instance_of st i)"

definition on_kv :: "('s KvStore \<Rightarrow> 'r \<times> 's KvStore) \<Rightarrow> ('net, 's) ProxyState \<Rightarrow> 'r \<times> ('net, 's) ProxyState" where
  "on_kv f st = (let (r, kv) = f (st_kv st) in (r, st\<lparr> st_kv := kv \<rparr>))"

definition persist_instance_gate :: "('net, 's) gw_env \<Rightarrow> string \<Rightarrow> ('net, 's) ProxyState \<Rightarrow> unit kv_res \<times> ('net, 's) ProxyState" where
  "persist_instance_gate E i st =
    (case instance_of st i of
       None \<Rightarrow> (Inr (), st)
     | Some info \<Rightarrow>
        (case ii_ready info of
           None \<Rightarrow> (Inr (), st)
         | Some ready \<Rightarrow>
            (let (r, st') = on_kv (set_instance_gate (ge_kv E) i ready) st
             in (with_context (''failed to sync the gate for instance '' @ i @ '' to KvStore'') r, st'))))"

definition persist_instance_port_policy_override ::
  "('net, 's) gw_env \<Rightarrow> string \<Rightarrow> ('net, 's) ProxyState \<Rightarrow> unit kv_res \<times> ('net, 's) ProxyState" where
  "persist_instance_port_policy_override E i st =
    (case instance_of st i of
       None \<Rightarrow> (Inr (), st)
     | Some info \<Rightarrow>
        (let (r, st') = on_kv (set_instance_port_policy_override (ge_kv E) i (ii_admin_port_policy info)) st
         in (with_context (''failed to sync the port-policy override for instance '' @ i @ '' to KvStore'') r, st')))"

definition persist_instance_record ::
  "('net, 's) gw_env \<Rightarrow> string \<Rightarrow> ('net, 's) ProxyState \<Rightarrow> unit kv_res \<times> ('net, 's) ProxyState" where
  "persist_instance_record E i st =
    (case instance_of st i of
       None \<Rightarrow> (Inr (), st)
     | Some info \<Rightarrow>
        (let (r, st') = on_kv (sync_instance (ge_kv E) i (record_of_info info)) st
         in (with_context (''failed to sync instance '' @ i @ '' to KvStore'') r, st')))"

definition set_info :: "string \<Rightarrow> InstanceInfo \<Rightarrow> ('net, 's) ProxyState \<Rightarrow> ('net, 's) ProxyState" where
  "set_info i info = upd_state (set_record i info)"

definition update_instance_port_policy ::
  "('net, 's) gw_env \<Rightarrow> string \<Rightarrow> PortPolicy \<Rightarrow> ('net, 's) ProxyState \<Rightarrow> ('net, 's) ProxyState" where
  "update_instance_port_policy E i policy st =
    (case instance_of st i of
       None \<Rightarrow> st
     | Some info \<Rightarrow> snd (persist_instance_record E i (set_info i (info\<lparr> ii_port_policy := Some policy \<rparr>) st)))"

definition set_admin_port_policy ::
  "('net, 's) gw_env \<Rightarrow> string \<Rightarrow> PortPolicy \<Rightarrow> ('net, 's) ProxyState \<Rightarrow> (state_error + unit) \<times> ('net, 's) ProxyState" where
  "set_admin_port_policy E i policy st =
    (case instance_of st i of
       None \<Rightarrow> (Inl (Instance_not_found i), st)
     | Some info \<Rightarrow> (Inr (), snd (persist_instance_port_policy_override E i
         (set_info i (info\<lparr> ii_admin_port_policy := Some policy \<rparr>) st))))"

definition clear_admin_port_policy ::
  "('net, 's) gw_env \<Rightarrow> string \<Rightarrow> ('net, 's) ProxyState \<Rightarrow> (state_error + unit) \<times> ('net, 's) ProxyState" where
  "clear_admin_port_policy E i st =
    (case instance_of st i of
       None \<Rightarrow> (Inl (Instance_not_found i), st)
     | Some info \<Rightarrow>
        (let st1 = set_info i (info\<lparr> ii_admin_port_policy := None \<rparr>) st
         in (Inr (), if ii_admin_port_policy info \<noteq> None
                     then snd (persist_instance_port_policy_override E i st1) else st1)))"

definition handshake_is_fresh :: "('net, 's) ProxyState \<Rightarrow> Handshakes \<Rightarrow> InstanceInfo \<Rightarrow> bool" where
  "handshake_is_fresh st handshakes info =
    (case bt_get handshakes (ii_public_key info) of
       None \<Rightarrow> False
     | Some (_, elapsed) \<Rightarrow> elapsed < cfg_handshake_stale (st_config st))"

definition is_eligible :: "('net, 's) ProxyState \<Rightarrow> Handshakes \<Rightarrow> InstanceInfo \<Rightarrow> bool" where
  "is_eligible st handshakes info = (is_ready info \<and> handshake_is_fresh st handshakes info)"

definition count_eligible_instances :: "kv_error + Handshakes \<Rightarrow> ('net, 's) ProxyState \<Rightarrow> string \<Rightarrow> (state_error + nat)" where
  "count_eligible_instances hs st app_id =
    (case bt_get (ps_apps (st_state st)) app_id of
       None \<Rightarrow> Inr 0
     | Some ids \<Rightarrow>
        (case hs of
           Inl e \<Rightarrow> Inl (Handshakes_unreadable e)
         | Inr handshakes \<Rightarrow>
            Inr (length (filter (is_eligible st handshakes) (List.map_filter (instance_of st) ids)))))"

definition drain_warning ::
  "kv_error + Handshakes \<Rightarrow> ('net, 's) ProxyState \<Rightarrow> string \<Rightarrow> bool \<Rightarrow> bool \<Rightarrow> (state_error + bool)" where
  "drain_warning hs st app_id prev ready =
    (if \<not> prev \<or> ready then Inr False
     else rbind (count_eligible_instances hs st app_id) (\<lambda>n. Inr (\<not> 0 < n)))"

definition set_ready ::
  "('net, 's) gw_env \<Rightarrow> kv_error + Handshakes \<Rightarrow> string \<Rightarrow> bool \<Rightarrow> ('net, 's) ProxyState
    \<Rightarrow> ((state_error + unit) \<times> bool) \<times> ('net, 's) ProxyState" where
  "set_ready E hs i ready st =
    (case edit_instance i (\<lambda>info. ((is_ready info, ii_app_id info), info\<lparr> ii_ready := Some ready \<rparr>)) st of
       (None, st1) \<Rightarrow> ((Inl (Instance_not_found i), False), st1)
     | (Some (prev, app_id), st1) \<Rightarrow>
        (let warned = (drain_warning hs st1 app_id prev ready = Inr True)
         in case persist_instance_gate E i st1 of
              (Inl e, st2) \<Rightarrow> ((Inl (Store_failed e), warned), st2)
            | (Inr _, st2) \<Rightarrow> ((Inr (), warned), st2)))"

record Target =
  tg_id :: string
  tg_ip :: ipv4
  tg_public_key :: string

record Observation =
  ob_state :: HealthState
  ob_reason :: string

definition apply_observation :: "Target \<Rightarrow> Observation \<Rightarrow> InstanceInfo \<Rightarrow> HealthState option \<times> InstanceInfo" where
  "apply_observation target observation info =
    (if ii_public_key info \<noteq> tg_public_key target \<or> ii_ip info \<noteq> tg_ip target then (None, info)
     else (Some (h_state (ii_health info)),
           if h_state (ii_health info) \<noteq> ob_state observation then set_health (ob_state observation) info else info))"

definition record_instance_health :: "Target \<Rightarrow> Observation \<Rightarrow> ('net, 's) ProxyState \<Rightarrow> ('net, 's) ProxyState" where
  "record_instance_health target observation st =
    snd (edit_instance (tg_id target) (apply_observation target observation) st)"

section \<open>Removal\<close>

definition forget_state :: "string \<Rightarrow> InstanceInfo \<Rightarrow> ProxyStateMut \<Rightarrow> ProxyStateMut" where
  "forget_state i info s =
    (let s1 = drop_top_n (ii_app_id info) (s\<lparr> ps_instances := bt_remove i (ps_instances s),
           ps_allocated := bs_remove (ii_ip info) (ps_allocated s) \<rparr>)
     in case bt_get (ps_apps s1) (ii_app_id info) of
          None \<Rightarrow> s1
        | Some ids \<Rightarrow>
           (let ids' = bs_remove i ids
            in if ids' = []
               then s1\<lparr> ps_apps := bt_remove (ii_app_id info) (ps_apps s1),
                        ps_warned := bt_remove (ii_app_id info) (ps_warned s1) \<rparr>
               else s1\<lparr> ps_apps := bt_insert (ii_app_id info) ids' (ps_apps s1) \<rparr>))"

definition forget_instance :: "string \<Rightarrow> ('net, 's) ProxyState \<Rightarrow> InstanceInfo option \<times> ('net, 's) ProxyState" where
  "forget_instance i st =
    (case instance_of st i of
       None \<Rightarrow> (None, st)
     | Some info \<Rightarrow> (Some info, upd_state (forget_state i info) st))"

definition remove_instance ::
  "('net, 's) gw_env \<Rightarrow> string \<Rightarrow> ('net, 's) ProxyState \<Rightarrow> (state_error + unit) \<times> ('net, 's) ProxyState" where
  "remove_instance E i st =
    (case forget_instance i st of
       (None, st1) \<Rightarrow> (Inl (Instance_not_found i), st1)
     | (Some _, st1) \<Rightarrow> (Inr (), snd (on_kv (sync_delete_instance (ge_kv E) i) st1)))"

section \<open>Invariants\<close>

text \<open>
  \<open>index_ok\<close>: the app index and the instance table describe the same instances.
  \<open>cache_ok\<close>: a cached selection only names instances of its app, as they are now, with the gate open.
  \<open>addr_ok\<close>: an address this node may hand out belongs to at most one instance and is marked allocated.
  \<open>keys_ok\<close>: no two instances share a WireGuard key.
\<close>

definition index_ok :: "ProxyStateMut \<Rightarrow> bool" where
  "index_ok s = (bt_wf (ps_apps s) \<and> bt_wf (ps_instances s) \<and> bt_wf (ps_top_n s) \<and> bs_wf (ps_allocated s) \<and>
    (\<forall>a ids. bt_get (ps_apps s) a = Some ids \<longrightarrow> bs_wf ids \<and> ids \<noteq> []) \<and>
    (\<forall>i info. bt_get (ps_instances s) i = Some info \<longrightarrow> ii_id info = i) \<and>
    (\<forall>a i. (\<exists>ids. bt_get (ps_apps s) a = Some ids \<and> i \<in> set ids) \<longleftrightarrow>
      (\<exists>info. bt_get (ps_instances s) i = Some info \<and> ii_app_id info = a)))"

definition names_instance :: "ProxyStateMut \<Rightarrow> string \<Rightarrow> AddressInfo \<Rightarrow> bool" where
  "names_instance s app_id ad = (\<exists>info. bt_get (ps_instances s) (ad_instance_id ad) = Some info \<and>
    ii_app_id info = app_id \<and> ii_ip info = ad_ip ad \<and> ii_connections info = ad_counter ad \<and> is_ready info)"

definition cache_ok :: "ProxyStateMut \<Rightarrow> bool" where
  "cache_ok s = (\<forall>a g t ad. bt_get (ps_top_n s) a = Some (g, t) \<longrightarrow> ad \<in> set g \<longrightarrow> names_instance s a ad)"

definition addr_ok :: "(ipv4 \<Rightarrow> bool) \<Rightarrow> ProxyStateMut \<Rightarrow> bool" where
  "addr_ok valid s =
    ((\<forall>i info. bt_get (ps_instances s) i = Some info \<longrightarrow> valid (ii_ip info) \<longrightarrow> ii_ip info \<in> set (ps_allocated s)) \<and>
     (\<forall>i j a b. bt_get (ps_instances s) i = Some a \<longrightarrow> bt_get (ps_instances s) j = Some b \<longrightarrow>
       valid (ii_ip a) \<longrightarrow> ii_ip a = ii_ip b \<longrightarrow> i = j))"

definition keys_ok :: "ProxyStateMut \<Rightarrow> bool" where
  "keys_ok s = (\<forall>i j a b. bt_get (ps_instances s) i = Some a \<longrightarrow> bt_get (ps_instances s) j = Some b \<longrightarrow>
    ii_public_key a = ii_public_key b \<longrightarrow> i = j)"

named_theorems table_simps \<open>reading the tables after one update\<close>

lemma set_record_tables [table_simps]:
  "ps_apps (set_record i info s) = ps_apps s" "ps_allocated (set_record i info s) = ps_allocated s"
  "ps_top_n (set_record i info s) = ps_top_n s" "ps_warned (set_record i info s) = ps_warned s"
  "ps_instances (set_record i info s) = bt_insert i info (ps_instances s)"
  by (simp_all add: set_record_def)

lemma app_insert_tables [table_simps]:
  "ps_instances (app_insert a i s) = ps_instances s" "ps_allocated (app_insert a i s) = ps_allocated s"
  "ps_top_n (app_insert a i s) = ps_top_n s" "ps_warned (app_insert a i s) = ps_warned s"
  "ps_apps (app_insert a i s) = bt_insert a (bs_insert i (case bt_get (ps_apps s) a of None \<Rightarrow> [] | Some ids \<Rightarrow> ids)) (ps_apps s)"
  by (simp_all add: app_insert_def)

lemma drop_top_n_tables [table_simps]:
  "ps_instances (drop_top_n a s) = ps_instances s" "ps_allocated (drop_top_n a s) = ps_allocated s"
  "ps_apps (drop_top_n a s) = ps_apps s" "ps_warned (drop_top_n a s) = ps_warned s"
  "ps_top_n (drop_top_n a s) = bt_remove a (ps_top_n s)"
  by (simp_all add: drop_top_n_def)

lemma index_key: "index_ok s \<Longrightarrow> bt_get (ps_instances s) i = Some info \<Longrightarrow> ii_id info = i"
  by (simp add: index_ok_def)

lemma index_app:
  assumes "index_ok s" "bt_get (ps_instances s) i = Some info"
  obtains ids where "bt_get (ps_apps s) (ii_app_id info) = Some ids" "i \<in> set ids" "bs_wf ids"
  using assms unfolding index_ok_def by blast

lemma index_member:
  assumes "index_ok s" "bt_get (ps_apps s) a = Some ids" "i \<in> set ids"
  obtains info where "bt_get (ps_instances s) i = Some info" "ii_app_id info = a" "ii_id info = i"
  using assms unfolding index_ok_def by blast

lemma drop_top_n_index [simp, intro]: "index_ok s \<Longrightarrow> index_ok (drop_top_n a s)"
  by (simp add: index_ok_def table_simps)

lemma drop_top_n_cache [simp, intro]: "cache_ok s \<Longrightarrow> cache_ok (drop_top_n a s)"
  by (auto simp: cache_ok_def names_instance_def table_simps)

lemma drop_top_n_addr [simp]: "addr_ok v (drop_top_n a s) = addr_ok v s"
  by (simp add: addr_ok_def table_simps)

lemma drop_top_n_keys [simp]: "keys_ok (drop_top_n a s) = keys_ok s"
  by (simp add: keys_ok_def table_simps)

subsection \<open>Replacing the record of an instance\<close>

lemma set_record_index:
  assumes "index_ok s" "bt_get (ps_instances s) i = Some old" "ii_id new = i" "ii_app_id new = ii_app_id old"
  shows "index_ok (set_record i new s)"
  using assms unfolding index_ok_def table_simps bt_get_insert by (auto 0 4)

lemma set_record_cache_same:
  assumes "cache_ok s" "bt_get (ps_instances s) i = Some old"
    "routing_inputs old = routing_inputs new" "ii_connections new = ii_connections old"
  shows "cache_ok (set_record i new s)"
  using assms routing_inputs_ready [OF assms(3)]
  by (fastforce simp: cache_ok_def names_instance_def table_simps routing_inputs_eq_iff)

lemma set_record_cache_drop:
  assumes "cache_ok s" "bt_get (ps_instances s) i = Some old"
  shows "cache_ok (drop_top_n (ii_app_id old) (set_record i new s))"
  using assms by (fastforce simp: cache_ok_def names_instance_def table_simps split: if_splits)

lemma set_record_addr:
  assumes "addr_ok v s" "bt_get (ps_instances s) i = Some old" "ii_ip new = ii_ip old"
  shows "addr_ok v (set_record i new s)"
  using assms unfolding addr_ok_def table_simps bt_get_insert by (auto split: if_splits)

lemma set_record_keys:
  assumes "keys_ok s" "\<And>j info. bt_get (ps_instances s) j = Some info \<Longrightarrow> j \<noteq> i \<Longrightarrow> ii_public_key info \<noteq> ii_public_key new"
  shows "keys_ok (set_record i new s)"
  using assms unfolding keys_ok_def table_simps bt_get_insert by (fastforce split: if_splits)

subsection \<open>The state invariant\<close>

definition state_ok :: "('net, 's) gw_env \<Rightarrow> ('net, 's) ProxyState \<Rightarrow> bool" where
  "state_ok E st = (index_ok (st_state st) \<and> cache_ok (st_state st) \<and>
    addr_ok (valid_ip E st) (st_state st) \<and> keys_ok (st_state st))"

lemma valid_ip_config: "st_config st = st_config st' \<Longrightarrow> valid_ip E st = valid_ip E st'"
  by (simp add: valid_ip_def fun_eq_iff)

lemma valid_ip_update [simp]:
  "valid_ip E (st\<lparr> st_state := x \<rparr>) = valid_ip E st" "valid_ip E (st\<lparr> st_kv := kv \<rparr>) = valid_ip E st"
  by (simp_all add: valid_ip_def fun_eq_iff)

lemma state_ok_frame:
  assumes "st_state st = st_state st'" "st_config st = st_config st'"
  shows "state_ok E st = state_ok E st'"
  using assms valid_ip_config [OF assms(2)] by (simp add: state_ok_def)

text \<open>The persisting calls write the store and nothing else.\<close>

lemma on_kv_frame [simp]:
  "st_state (snd (on_kv f st)) = st_state st" "st_config (snd (on_kv f st)) = st_config st"
  by (simp_all add: on_kv_def Let_def split: prod.splits)

lemma persist_frame [simp]:
  "st_state (snd (persist_instance_gate E i st)) = st_state st"
  "st_config (snd (persist_instance_gate E i st)) = st_config st"
  "st_state (snd (persist_instance_port_policy_override E i st)) = st_state st"
  "st_config (snd (persist_instance_port_policy_override E i st)) = st_config st"
  "st_state (snd (persist_instance_record E i st)) = st_state st"
  "st_config (snd (persist_instance_record E i st)) = st_config st"
  using on_kv_frame
  by (simp_all add: persist_instance_gate_def persist_instance_port_policy_override_def
      persist_instance_record_def Let_def case_prod_beta split: option.splits)

text \<open>
  The contract of the closure a caller of \<^verbatim>\<open>edit_instance\<close> passes: it keeps what the indexes are built
  from.  Everything else it may change, because the edit drops the selections that used it.
\<close>

locale instance_edit =
  fixes edit :: "InstanceInfo \<Rightarrow> 'a \<times> InstanceInfo"
  assumes keeps_id: "ii_id (snd (edit info)) = ii_id info"
    and keeps_app: "ii_app_id (snd (edit info)) = ii_app_id info"
    and keeps_ip: "ii_ip (snd (edit info)) = ii_ip info"
    and keeps_counter: "ii_connections (snd (edit info)) = ii_connections info"
begin

lemma edit_result:
  "edit_instance i edit st = (case instance_of st i of
     None \<Rightarrow> (None, st)
   | Some info \<Rightarrow> (Some (fst (edit info)),
       upd_state (\<lambda>s. let s1 = set_record i (snd (edit info)) s
         in if routing_inputs info = routing_inputs (snd (edit info)) then s1 else drop_top_n (ii_app_id info) s1) st))"
  by (simp add: edit_instance_def Let_def case_prod_beta keeps_app split: option.split)

lemma edit_config: "st_config (snd (edit_instance i edit st)) = st_config st"
  by (simp add: edit_result split: option.split)

lemma edit_index: "index_ok (st_state st) \<Longrightarrow> index_ok (st_state (snd (edit_instance i edit st)))"
  by (auto simp: edit_result instance_of_def Let_def keeps_id keeps_app index_key
      intro!: set_record_index split: option.split)

lemma edit_cache: "cache_ok (st_state st) \<Longrightarrow> cache_ok (st_state (snd (edit_instance i edit st)))"
  by (auto simp: edit_result instance_of_def Let_def keeps_counter set_record_cache_drop
      intro: set_record_cache_same split: option.split)

lemma edit_addr: "addr_ok v (st_state st) \<Longrightarrow> addr_ok v (st_state (snd (edit_instance i edit st)))"
  by (auto simp: edit_result instance_of_def Let_def keeps_ip intro: set_record_addr split: option.split)

lemma edit_instances:
  "bt_get (ps_instances (st_state (snd (edit_instance i edit st)))) j =
    (if j = i then map_option (\<lambda>info. snd (edit info)) (instance_of st i) else instance_of st j)"
  by (simp add: edit_result instance_of_def Let_def table_simps split: option.split)

lemma edit_state_ok:
  assumes "state_ok E st"
    and "\<And>info. instance_of st i = Some info \<Longrightarrow>
      ii_public_key (snd (edit info)) = ii_public_key info \<or>
      (\<forall>j other. instance_of st j = Some other \<longrightarrow> j \<noteq> i \<longrightarrow> ii_public_key other \<noteq> ii_public_key (snd (edit info)))"
  shows "state_ok E (snd (edit_instance i edit st))"
proof -
  have "keys_ok (st_state (snd (edit_instance i edit st)))"
    using assms unfolding keys_ok_def edit_instances state_ok_def
    by (fastforce simp: instance_of_def split: if_splits)
  then show ?thesis
    using assms(1)
    by (simp add: state_ok_def valid_ip_config [OF edit_config] edit_index edit_cache edit_addr)
qed

end

interpretation rereg: instance_edit "reregister now public_key compose_hash reported"
  by unfold_locales (simp_all add: reregister_def Let_def set_health_check_def reset_health_def)

interpretation gate: instance_edit "\<lambda>info. ((is_ready info, ii_app_id info), info\<lparr> ii_ready := Some ready \<rparr>)"
  by unfold_locales simp_all

interpretation obs: instance_edit "apply_observation target observation"
  by unfold_locales (simp_all add: apply_observation_def set_health_def)

subsection \<open>Adding and removing an instance\<close>

definition enter :: "InstanceInfo \<Rightarrow> ProxyStateMut \<Rightarrow> ProxyStateMut" where
  "enter info s = set_record (ii_id info) info (app_insert (ii_app_id info) (ii_id info) (drop_top_n (ii_app_id info) s))"

lemma add_instance_state [simp]:
  "st_state (add_instance E info st) = enter info (st_state st)"
  "st_config (add_instance E info st) = st_config st"
  by (simp_all add: add_instance_def enter_def Let_def split: prod.split)

lemma app_insert_members:
  "(\<exists>ids. bt_get (ps_apps (app_insert a i s)) b = Some ids \<and> j \<in> set ids) \<longleftrightarrow>
    (b = a \<and> j = i) \<or> (\<exists>ids. bt_get (ps_apps s) b = Some ids \<and> j \<in> set ids)"
  by (auto simp: table_simps split: option.splits)

lemma app_insert_sets:
  assumes "\<forall>a ids. bt_get (ps_apps s) a = Some ids \<longrightarrow> bs_wf ids \<and> ids \<noteq> []"
  shows "\<forall>b ids. bt_get (ps_apps (app_insert a i s)) b = Some ids \<longrightarrow> bs_wf ids \<and> ids \<noteq> []"
  using assms by (auto simp: table_simps split: option.splits if_splits)

lemma enter_index:
  assumes "index_ok s"
    and "\<And>old. bt_get (ps_instances s) (ii_id info) = Some old \<Longrightarrow> ii_app_id old = ii_app_id info"
  shows "index_ok (enter info s)"
proof -
  let ?t = "app_insert (ii_app_id info) (ii_id info) (drop_top_n (ii_app_id info) s)"
  have "\<forall>b ids. bt_get (ps_apps ?t) b = Some ids \<longrightarrow> bs_wf ids \<and> ids \<noteq> []"
    using assms(1) by (intro app_insert_sets) (simp add: index_ok_def table_simps)
  moreover have "(\<exists>ids. bt_get (ps_apps ?t) a = Some ids \<and> i \<in> set ids) \<longleftrightarrow>
      (\<exists>x. bt_get (bt_insert (ii_id info) info (ps_instances s)) i = Some x \<and> ii_app_id x = a)" for a i
    using assms unfolding app_insert_members drop_top_n_tables index_ok_def bt_get_insert by (auto 0 4)
  ultimately show ?thesis
    using assms(1) unfolding enter_def index_ok_def set_record_tables
    by (simp add: table_simps split: option.split)
qed

lemma enter_cache:
  assumes "cache_ok s"
    and "\<And>old. bt_get (ps_instances s) (ii_id info) = Some old \<Longrightarrow> ii_app_id old = ii_app_id info"
  shows "cache_ok (enter info s)"
  using assms by (fastforce simp: enter_def cache_ok_def names_instance_def table_simps split: if_splits)

lemma forget_state_tables:
  "ps_instances (forget_state i info s) = bt_remove i (ps_instances s)"
  "ps_allocated (forget_state i info s) = bs_remove (ii_ip info) (ps_allocated s)"
  "ps_top_n (forget_state i info s) = bt_remove (ii_app_id info) (ps_top_n s)"
  by (simp_all add: forget_state_def Let_def table_simps split: option.split)

lemma forget_state_apps:
  assumes "bt_get (ps_apps s) (ii_app_id info) = Some ids"
  shows "ps_apps (forget_state i info s) = (if bs_remove i ids = [] then bt_remove (ii_app_id info) (ps_apps s)
    else bt_insert (ii_app_id info) (bs_remove i ids) (ps_apps s))"
  using assms by (simp add: forget_state_def Let_def table_simps)

lemma forget_index:
  assumes "index_ok s" "bt_get (ps_instances s) i = Some info"
  shows "index_ok (forget_state i info s)"
proof -
  obtain ids where ids: "bt_get (ps_apps s) (ii_app_id info) = Some ids" "i \<in> set ids" "bs_wf ids"
    using index_app [OF assms] .
  have empty: "bs_remove i ids = [] \<longleftrightarrow> set ids \<subseteq> {i}"
    using bs_set_remove [of i ids] by (metis Diff_eq_empty_iff set_empty)
  have "(\<exists>xs. bt_get (ps_apps (forget_state i info s)) a = Some xs \<and> j \<in> set xs) \<longleftrightarrow>
      (\<exists>x. bt_get (bt_remove i (ps_instances s)) j = Some x \<and> ii_app_id x = a)" for a j
  proof -
    have "(\<exists>xs. bt_get (ps_apps s) a = Some xs \<and> j \<in> set xs) \<longleftrightarrow>
        (\<exists>x. bt_get (ps_instances s) j = Some x \<and> ii_app_id x = a)"
      using assms(1) by (simp add: index_ok_def)
    then show ?thesis
      using ids assms(2) empty by (auto simp: forget_state_apps [OF ids(1)])
  qed
  then show ?thesis
    using assms(1) ids unfolding index_ok_def forget_state_tables forget_state_apps [OF ids(1)]
    by (simp add: bt_wf_intros)
qed

lemma forget_cache:
  assumes "cache_ok s" "bt_get (ps_instances s) i = Some info"
  shows "cache_ok (forget_state i info s)"
  using assms by (fastforce simp: cache_ok_def names_instance_def forget_state_tables split: if_splits)

lemma forget_addr:
  assumes "addr_ok v s" "bt_get (ps_instances s) i = Some info"
  shows "addr_ok v (forget_state i info s)"
  using assms unfolding addr_ok_def forget_state_tables by (fastforce split: if_splits)

lemma forget_keys: "keys_ok s \<Longrightarrow> keys_ok (forget_state i info s)"
  by (simp add: keys_ok_def forget_state_tables)

lemma forget_instance_state:
  "st_state (snd (forget_instance i st)) =
    (case instance_of st i of None \<Rightarrow> st_state st | Some info \<Rightarrow> forget_state i info (st_state st))"
  "st_config (snd (forget_instance i st)) = st_config st"
  by (simp_all add: forget_instance_def split: option.split)

lemma forget_instance_ok:
  assumes "state_ok E st"
  shows "state_ok E (snd (forget_instance i st))"
  using assms
  by (auto simp: state_ok_def forget_instance_def instance_of_def
      intro: forget_index forget_cache forget_addr forget_keys split: option.split)

lemma remove_instance_ok:
  assumes "state_ok E st"
  shows "state_ok E (snd (remove_instance E i st))"
proof -
  have "st_state (snd (remove_instance E i st)) = st_state (snd (forget_instance i st))"
    "st_config (snd (remove_instance E i st)) = st_config (snd (forget_instance i st))"
    by (auto simp: remove_instance_def split: prod.split option.split)
  then show ?thesis
    using forget_instance_ok [OF assms] state_ok_frame by metis
qed

subsection \<open>Allocation and registration\<close>

lemma alloc_ip_some:
  assumes "alloc_ip E st = (Some ip, st')"
  shows "valid_ip E st ip" "ip \<notin> set (ps_allocated (st_state st))"
    and "ip \<in> set (net_hosts (ge_ext E) (wg_client_ip_range (cfg_wg (st_config st))))"
    and "st' = upd_state (\<lambda>s. s\<lparr> ps_allocated := bs_insert ip (ps_allocated s) \<rparr>) st"
  using assms by (auto simp: alloc_ip_def find_Some_iff set_conv_nth split: option.splits)

lemma alloc_ip_none:
  assumes "alloc_ip E st = (None, st')"
  shows "st' = st"
    and "\<And>ip. ip \<in> set (net_hosts (ge_ext E) (wg_client_ip_range (cfg_wg (st_config st)))) \<Longrightarrow>
      valid_ip E st ip \<Longrightarrow> ip \<in> set (ps_allocated (st_state st))"
  using assms by (auto simp: alloc_ip_def find_None_iff split: option.splits)

lemma rebuild_info_fields [simp]:
  "ii_ip (rebuild_info now i a k h r p ip c) = ip" "ii_public_key (rebuild_info now i a k h r p ip c) = k"
  "ii_connections (rebuild_info now i a k h r p ip c) = c"
  by (simp_all add: rebuild_info_def split: option.split)

definition fits :: "string \<Rightarrow> string \<Rightarrow> InstanceInfo option \<Rightarrow> ('net, 's) ProxyState \<Rightarrow> bool" where
  "fits i app_id previous st = (instance_of st i = previous \<and>
    (\<forall>p. previous = Some p \<longrightarrow> ii_id p = i \<and> ii_app_id p = app_id))"

lemma rebuild_info_ids:
  assumes "fits i app_id previous st"
  shows "ii_id (rebuild_info now i app_id k h r previous ip c) = i"
    "ii_app_id (rebuild_info now i app_id k h r previous ip c) = app_id"
  using assms by (cases previous; simp add: fits_def rebuild_info_def)+

lemma enter_fresh:
  assumes "index_ok s" "cache_ok s" "addr_ok v s" "keys_ok s" "ip \<notin> set (ps_allocated s)" "v ip"
    and "ii_ip info = ip" "\<And>old. bt_get (ps_instances s) (ii_id info) = Some old \<Longrightarrow> ii_app_id old = ii_app_id info"
    and "\<And>j x. bt_get (ps_instances s) j = Some x \<Longrightarrow> j \<noteq> ii_id info \<Longrightarrow> ii_public_key x \<noteq> ii_public_key info"
  shows "index_ok (enter info (s\<lparr> ps_allocated := bs_insert ip (ps_allocated s) \<rparr>)) \<and>
    cache_ok (enter info (s\<lparr> ps_allocated := bs_insert ip (ps_allocated s) \<rparr>)) \<and>
    addr_ok v (enter info (s\<lparr> ps_allocated := bs_insert ip (ps_allocated s) \<rparr>)) \<and>
    keys_ok (enter info (s\<lparr> ps_allocated := bs_insert ip (ps_allocated s) \<rparr>))"
proof (intro conjI)
  let ?s = "s\<lparr> ps_allocated := bs_insert ip (ps_allocated s) \<rparr>"
  show "index_ok (enter info ?s)"
    using assms(1,8) by (intro enter_index) (simp_all add: index_ok_def)
  show "cache_ok (enter info ?s)"
    using assms(2,8) by (intro enter_cache) (simp_all add: cache_ok_def names_instance_def)
  have "\<And>j x. bt_get (ps_instances s) j = Some x \<Longrightarrow> ii_ip x \<noteq> ip"
    using assms(3,5,6) unfolding addr_ok_def by blast
  then show "addr_ok v (enter info ?s)"
    using assms(3,7) unfolding addr_ok_def enter_def table_simps by (fastforce simp: table_simps split: if_splits)
  show "keys_ok (enter info ?s)"
    using assms(4,9) unfolding keys_ok_def enter_def by (fastforce simp: table_simps split: if_splits)
qed

lemma allocate_client_ok:
  assumes ok: "state_ok E st" and fits: "fits i app_id previous st"
    and unused: "\<And>j x. instance_of st j = Some x \<Longrightarrow> j \<noteq> i \<Longrightarrow> ii_public_key x \<noteq> public_key"
  shows "state_ok E (snd (allocate_client E now i app_id public_key h r previous st))"
proof (cases "alloc_ip E st")
  case (Pair o' st')
  then show ?thesis
  proof (cases o')
    case None
    then show ?thesis using ok Pair alloc_ip_none(1) [of E st st'] by (simp add: allocate_client_def)
  next
    case (Some ip)
    let ?info = "rebuild_info now i app_id public_key h r previous ip (st_next_counter st')"
    note a = alloc_ip_some [OF Pair [unfolded Some]]
    have "\<And>old. bt_get (ps_instances (st_state st)) i = Some old \<Longrightarrow> ii_app_id old = app_id"
      using fits by (auto simp: fits_def instance_of_def)
    then show ?thesis
      using ok unused enter_fresh [of "st_state st" "valid_ip E st" ip ?info] a(1,2) Pair Some
      by (simp add: allocate_client_def fresh_counter_def state_ok_def rebuild_info_ids [OF fits] instance_of_def a(4)
          Let_def valid_ip_def [abs_def])
  qed
qed

lemma bt_values_get: "bt_wf m \<Longrightarrow> v \<in> set (bt_values m) \<longleftrightarrow> (\<exists>k. bt_get m k = Some v)"
  by (force simp: bt_values_def bt_get_iff)

lemma key_in_use_iff:
  assumes "index_ok (st_state st)"
  shows "key_in_use st i k \<longleftrightarrow> (\<exists>j x. instance_of st j = Some x \<and> j \<noteq> i \<and> ii_public_key x = k)"
proof -
  have "bt_wf (ps_instances (st_state st))" using assms by (simp add: index_ok_def)
  then show ?thesis
    using index_key [OF assms] by (auto simp: key_in_use_def list_ex_iff Bex_def bt_values_get instance_of_def)
qed

lemma set_allocated_frame [simp]:
  "cache_ok (s\<lparr> ps_allocated := a \<rparr>) = cache_ok s" "keys_ok (s\<lparr> ps_allocated := a \<rparr>) = keys_ok s"
  "index_ok s \<Longrightarrow> bs_wf a \<Longrightarrow> index_ok (s\<lparr> ps_allocated := a \<rparr>)"
  by (simp_all add: index_ok_def cache_ok_def names_instance_def keys_ok_def)

lemma release_invalid_ok:
  assumes "state_ok E st" "\<not> valid_ip E st ip"
  shows "state_ok E (upd_state (\<lambda>s. s\<lparr> ps_allocated := bs_remove ip (ps_allocated s) \<rparr>) st)"
proof -
  have "addr_ok (valid_ip E st) (st_state st\<lparr> ps_allocated := bs_remove ip (ps_allocated (st_state st)) \<rparr>)"
    using assms by (auto simp: state_ok_def addr_ok_def)
  moreover have "bs_wf (ps_allocated (st_state st))" using assms(1) by (simp add: state_ok_def index_ok_def)
  ultimately show ?thesis using assms(1) by (simp add: state_ok_def)
qed

lemma reregister_key [simp]: "ii_public_key (snd (reregister now k h r info)) = k"
  by (simp add: reregister_def Let_def set_health_check_def reset_health_def)

lemma reregister_fst: "fst (reregister now k h r info) = snd (reregister now k h r info)"
  by (simp add: reregister_def Let_def)

lemma reg_check_Inr:
  assumes "reg_check E i app_id public_key st = Inr u"
  shows "i \<noteq> []" "app_id \<noteq> []" "validate_wg_public_key (ge_ext E) public_key = Inr ()"
    "\<not> key_in_use st i public_key" "\<And>x. instance_of st i = Some x \<Longrightarrow> ii_app_id x = app_id"
  using assms by (auto simp: reg_check_def res_simps split: sum.splits option.splits)

lemma new_client_refused:
  "reg_check E i app_id public_key st = Inl e \<Longrightarrow> new_client_by_id E now i app_id public_key h r st = (Inl e, st)"
  by (simp add: new_client_by_id_def)

lemma new_client_allowed:
  assumes "reg_check E i app_id public_key st = Inr u"
  shows "new_client_by_id E now i app_id public_key h r st =
    (case edit_instance i (reregister now public_key h r) st of
       (Some existing, st1) \<Rightarrow>
         if valid_ip E st1 (ii_ip existing)
         then (Inr existing, st1\<lparr> st_kv := snd (sync_instance (ge_kv E) (ii_id existing) (record_of_info existing) (st_kv st1)) \<rparr>)
         else allocate_client E now i app_id public_key h r (Some existing)
           (upd_state (\<lambda>s. s\<lparr> ps_allocated := bs_remove (ii_ip existing) (ps_allocated s) \<rparr>) st1)
     | (None, st1) \<Rightarrow> allocate_client E now i app_id public_key h r None st1)"
  by (cases "edit_instance i (reregister now public_key h r) st")
    (simp add: new_client_by_id_def assms Let_def case_prod_beta split: option.split)

lemma new_client_by_id_ok:
  assumes ok: "state_ok E st"
  shows "state_ok E (snd (new_client_by_id E now i app_id public_key h r st))"
proof (cases "reg_check E i app_id public_key st")
  case (Inl e)
  then show ?thesis using ok by (simp add: new_client_refused)
next
  case (Inr u)
  let ?edit = "reregister now public_key h r" and ?st1 = "snd (edit_instance i (reregister now public_key h r) st)"
  have idx: "index_ok (st_state st)" using ok by (simp add: state_ok_def)
  have unused: "ii_public_key x \<noteq> public_key" if "instance_of st j = Some x" "j \<noteq> i" for j x
    using reg_check_Inr(4) [OF Inr] that key_in_use_iff [OF idx] by auto
  have ok1: "state_ok E ?st1"
    using ok unused by (intro rereg.edit_state_ok) auto
  show ?thesis
  proof (cases "instance_of st i")
    case None
    then have "edit_instance i ?edit st = (None, st)" by (simp add: edit_instance_def)
    then show ?thesis
      using allocate_client_ok [OF ok _ unused, of i app_id None] None
      by (simp add: new_client_allowed [OF Inr] fits_def)
  next
    case (Some old)
    let ?x = "snd (?edit old)"
    let ?st2 = "upd_state (\<lambda>s. s\<lparr> ps_allocated := bs_remove (ii_ip ?x) (ps_allocated s) \<rparr>) ?st1"
    have e: "edit_instance i ?edit st = (Some ?x, ?st1)"
      using Some by (simp add: rereg.edit_result reregister_fst)
    have at1: "instance_of ?st1 j = (if j = i then Some ?x else instance_of st j)" for j
      using Some unfolding instance_of_def by (simp add: rereg.edit_instances instance_of_def)
    have at2: "instance_of ?st2 j = (if j = i then Some ?x else instance_of st j)" for j
      using at1 by (simp add: instance_of_def)
    have "fits i app_id (Some ?x) ?st2"
      using reg_check_Inr(5) [OF Inr Some] index_key [OF idx] Some
      by (simp add: fits_def at2 rereg.keeps_id rereg.keeps_app) (simp add: instance_of_def)
    then have "\<not> valid_ip E ?st1 (ii_ip ?x) \<Longrightarrow>
        state_ok E (snd (allocate_client E now i app_id public_key h r (Some ?x) ?st2))"
      using unused at2 by (intro allocate_client_ok release_invalid_ok ok1) (auto split: if_splits)
    moreover have "state_ok E (?st1\<lparr> st_kv := kv \<rparr>)" for kv
      using ok1 state_ok_frame [of "?st1\<lparr> st_kv := kv \<rparr>" ?st1] by simp
    ultimately show ?thesis unfolding new_client_allowed [OF Inr] by (subst e) simp
  qed
qed

subsection \<open>The remaining operations\<close>

lemma set_info_ok:
  assumes "state_ok E st" "instance_of st i = Some info" "ii_id new = ii_id info"
    "routing_inputs info = routing_inputs new" "ii_connections new = ii_connections info"
  shows "state_ok E (set_info i new st)"
proof -
  have i: "bt_get (ps_instances (st_state st)) i = Some info" using assms(2) by (simp add: instance_of_def)
  have same: "ii_app_id new = ii_app_id info" "ii_ip new = ii_ip info" "ii_public_key new = ii_public_key info"
    using assms(4) by (simp_all add: routing_inputs_eq_iff)
  have "keys_ok (set_record i new (st_state st))"
    using assms(1) i same by (intro set_record_keys) (auto simp: state_ok_def keys_ok_def)
  moreover have "ii_id new = i" using assms(1,3) index_key [OF _ i] by (simp add: state_ok_def)
  ultimately show ?thesis
    using assms(1,4,5) same set_record_index [OF _ i] set_record_cache_same [OF _ i] set_record_addr [OF _ i]
    by (simp add: state_ok_def set_info_def)
qed

lemma persist_state_ok:
  "state_ok E (snd (persist_instance_gate F i st)) = state_ok E st"
  "state_ok E (snd (persist_instance_port_policy_override F i st)) = state_ok E st"
  "state_ok E (snd (persist_instance_record F i st)) = state_ok E st"
  by (rule state_ok_frame; simp)+

lemma policy_ops_ok:
  assumes "state_ok E st"
  shows "state_ok E (update_instance_port_policy E i p st)" "state_ok E (snd (set_admin_port_policy E i p st))"
    "state_ok E (snd (clear_admin_port_policy E i st))"
  using assms set_info_ok [OF assms]
  by (auto simp: update_instance_port_policy_def set_admin_port_policy_def clear_admin_port_policy_def
      persist_state_ok routing_inputs_eq_iff Let_def split: option.split)

lemma set_ready_ok:
  assumes "state_ok E st"
  shows "state_ok E (snd (set_ready E hs i ready st))"
proof -
  let ?st1 = "snd (edit_instance i (\<lambda>info. ((is_ready info, ii_app_id info), info\<lparr> ii_ready := Some ready \<rparr>)) st)"
  have ok1: "state_ok E ?st1" by (intro gate.edit_state_ok assms) simp
  have "snd (set_ready E hs i ready st) = ?st1 \<or> snd (set_ready E hs i ready st) = snd (persist_instance_gate E i ?st1)"
    by (auto simp: set_ready_def Let_def split: option.split prod.split sum.split)
  then show ?thesis using ok1 by (auto simp: persist_state_ok)
qed

lemma record_instance_health_ok:
  assumes "state_ok E st"
  shows "state_ok E (record_instance_health target ob st)"
  unfolding record_instance_health_def
  by (intro obs.edit_state_ok assms) (simp add: apply_observation_def set_health_def)

subsection \<open>What a successful registration leaves\<close>

lemma reregister_keeps [simp]:
  "ii_ready (snd (reregister now k h r x)) = ii_ready x"
  "ii_admin_port_policy (snd (reregister now k h r x)) = ii_admin_port_policy x"
  by (simp_all add: reregister_def Let_def set_health_check_def reset_health_def)

lemma enter_instances: "bt_get (ps_instances (enter info s)) j = (if j = ii_id info then Some info else bt_get (ps_instances s) j)"
  by (simp add: enter_def table_simps)

lemma allocate_client_some:
  assumes "allocate_client E now i app_id k h r previous st = (Inr info, st')" "fits i app_id previous st"
  shows "instance_of st' j = (if j = i then Some info else instance_of st j)" "ii_id info = i" "ii_app_id info = app_id"
    "ii_public_key info = k" "valid_ip E st (ii_ip info)"
    "\<And>p. previous = Some p \<Longrightarrow> ii_ready info = ii_ready p \<and> ii_admin_port_policy info = ii_admin_port_policy p"
proof -
  obtain ip st1 where a: "alloc_ip E st = (Some ip, st1)"
    using assms(1) by (cases "alloc_ip E st") (auto simp: allocate_client_def split: option.splits)
  have info: "info = rebuild_info now i app_id k h r previous ip (st_next_counter st1)"
    and st': "st' = add_instance E info (snd (fresh_counter st1))"
    using assms(1) by (auto simp: allocate_client_def a fresh_counter_def Let_def)
  note ids = rebuild_info_ids [OF assms(2), of now k h r ip "st_next_counter st1", folded info]
  show "ii_id info = i" "ii_app_id info = app_id" by (fact ids)+
  show "instance_of st' j = (if j = i then Some info else instance_of st j)"
    by (simp add: st' instance_of_def fresh_counter_def enter_instances ids alloc_ip_some(4) [OF a])
  show "ii_public_key info = k" "valid_ip E st (ii_ip info)"
    using alloc_ip_some(1) [OF a] by (simp_all add: info)
  show "ii_ready info = ii_ready p \<and> ii_admin_port_policy info = ii_admin_port_policy p" if "previous = Some p" for p
    by (simp add: info that rebuild_info_def)
qed

lemma new_client_result:
  assumes idx: "index_ok (st_state st)" and reg: "new_client_by_id E now i app_id k h r st = (Inr info, st')"
  shows "(\<forall>j. instance_of st' j = (if j = i then Some info else instance_of st j)) \<and>
    ii_id info = i \<and> ii_app_id info = app_id \<and> ii_public_key info = k \<and> valid_ip E st (ii_ip info) \<and>
    (\<forall>old. instance_of st i = Some old \<longrightarrow>
      ii_ready info = ii_ready old \<and> ii_admin_port_policy info = ii_admin_port_policy old \<and>
      (valid_ip E st (ii_ip old) \<longrightarrow> ii_ip info = ii_ip old))"
proof -
  have chk: "reg_check E i app_id k st = Inr ()"
    using reg new_client_refused [of E i app_id k st _ now h r] by (cases "reg_check E i app_id k st") auto
  let ?edit = "reregister now k h r"
  show ?thesis
  proof (cases "instance_of st i")
    case None
    then have e: "edit_instance i ?edit st = (None, st)" by (simp add: edit_instance_def)
    have "allocate_client E now i app_id k h r None st = (Inr info, st')"
      using reg unfolding new_client_allowed [OF chk] e by simp
    from allocate_client_some [OF this] show ?thesis using None by (simp add: fits_def)
  next
    case (Some old)
    define st1 where "st1 = snd (edit_instance i ?edit st)"
    let ?x = "snd (?edit old)"
    let ?st2 = "upd_state (\<lambda>s. s\<lparr> ps_allocated := bs_remove (ii_ip ?x) (ps_allocated s) \<rparr>) st1"
    have e: "edit_instance i ?edit st = (Some ?x, st1)" using Some by (simp add: st1_def rereg.edit_result reregister_fst)
    have at1: "instance_of st1 j = (if j = i then Some ?x else instance_of st j)" for j
      using Some unfolding instance_of_def st1_def by (simp add: rereg.edit_instances instance_of_def)
    have at2: "instance_of ?st2 j = (if j = i then Some ?x else instance_of st j)" for j
      using at1 by (simp add: instance_of_def)
    have v: "valid_ip E st1 = valid_ip E st" unfolding st1_def by (rule valid_ip_config [OF rereg.edit_config])
    have x: "ii_id ?x = i" "ii_app_id ?x = app_id" "ii_ip ?x = ii_ip old"
      using reg_check_Inr(5) [OF chk Some] index_key [OF idx] Some
      by (simp_all add: rereg.keeps_id rereg.keeps_app rereg.keeps_ip instance_of_def)
    show ?thesis
    proof (cases "valid_ip E st (ii_ip old)")
      case True
      then have "info = ?x" "\<And>j. instance_of st' j = instance_of st1 j"
        using reg x v unfolding new_client_allowed [OF chk] e by (auto simp: instance_of_def)
      then show ?thesis using at1 x True Some by simp
    next
      case False
      then have "allocate_client E now i app_id k h r (Some ?x) ?st2 = (Inr info, st')"
        using reg x v unfolding new_client_allowed [OF chk] e by simp
      from allocate_client_some [OF this] show ?thesis
        using False Some x at2 v by (simp add: fits_def)
    qed
  qed
qed

section \<open>A concrete gateway\<close>

definition demo_config :: "cidr Config" where
  "demo_config = \<lparr> cfg_wg = demo_wg, cfg_node_id = 1, cfg_my_url = ''gw1'', cfg_recycle_timeout = 3600 * 10 ^ 9, cfg_connect_top_n = 1,
    cfg_handshake_stale = 300, cfg_cache_top_n = 30, cfg_health_check_enabled = True, cfg_insecure_localhost = False,
    cfg_agent_port = 8090, cfg_ns_prefix = ''_dstack'' \<rparr>"

definition demo_gw :: "(cidr, mem_node) gw_env" where
  "demo_gw = \<lparr> ge_ext = cidr_ops, ge_kv = demo_env (\<lambda>_. False) \<rparr>"

definition demo_empty :: "(cidr, mem_node) ProxyState" where
  "demo_empty = \<lparr> st_config = demo_config, st_state = default_state, st_kv = demo_kv, st_counters = (\<lambda>_. 0),
    st_next_counter = 0, st_reported_rejections = [], st_reported_bad_overrides = [] \<rparr>"

definition demo_reg :: "string \<Rightarrow> char \<Rightarrow> (cidr, mem_node) ProxyState \<Rightarrow> (cidr, mem_node) ProxyState" where
  "demo_reg i c st = snd (new_client_by_id demo_gw 1000 i ''app'' (demo_key c) ''hash'' (reported_from None) st)"

definition demo_one :: "(cidr, mem_node) ProxyState" where
  "demo_one = demo_reg ''a'' (CHR ''A'') demo_empty"

definition demo_info :: "string \<Rightarrow> char \<Rightarrow> ipv4 \<Rightarrow> counter_ref \<Rightarrow> InstanceInfo" where
  "demo_info i c ip n = \<lparr> ii_id = i, ii_app_id = ''app'', ii_ip = ip, ii_public_key = demo_key c, ii_reg_time = 1000,
    ii_port_policy = None, ii_port_policy_hash = ''hash'', ii_admin_port_policy = None, ii_ready = None,
    ii_health = health_from False, ii_connections = n \<rparr>"

definition demo_two :: "(cidr, mem_node) ProxyState" where
  "demo_two = demo_empty\<lparr> st_state := default_state\<lparr> ps_apps := [(''app'', [''a'', ''b''])],
      ps_instances := [(''a'', demo_info ''a'' (CHR ''A'') 0x0A000009 0), (''b'', demo_info ''b'' (CHR ''B'') 0x0A00000A 1)],
      ps_allocated := [0x0A000009, 0x0A00000A] \<rparr>, st_next_counter := 2 \<rparr>"

lemma demo_empty_ok: "state_ok demo_gw demo_empty"
  by (simp add: state_ok_def demo_empty_def default_state_def index_ok_def cache_ok_def addr_ok_def keys_ok_def)

lemma demo_one_ok: "state_ok demo_gw demo_one"
  unfolding demo_one_def demo_reg_def by (intro new_client_by_id_ok demo_empty_ok)

lemma demo_two_ok: "state_ok demo_gw demo_two"
proof -
  have "index_ok (st_state demo_two)"
    unfolding demo_two_def default_state_def index_ok_def
    by (auto simp: bt_get_def bt_wf_def bs_wf_def demo_info_def less_list_code less_char_def split: if_splits)
  moreover have "cache_ok (st_state demo_two)" "keys_ok (st_state demo_two)" "addr_ok v (st_state demo_two)" for v
    by (auto simp: demo_two_def default_state_def cache_ok_def keys_ok_def addr_ok_def bt_get_def demo_info_def
        demo_key_def split: if_splits)
  ultimately show ?thesis by (simp add: state_ok_def)
qed

section \<open>Properties\<close>


definition demo_gated :: "(cidr, mem_node) ProxyState" where
  "demo_gated = snd (set_ready demo_gw (Inr []) ''a'' False demo_one)"

definition demo_again :: "(state_error + InstanceInfo) \<times> (cidr, mem_node) ProxyState" where
  "demo_again = new_client_by_id demo_gw 2000 ''a'' ''app'' (demo_key (CHR ''Z'')) ''hash2'' (reported_from None) demo_gated"

lemma demo_again_facts:
  "\<not> isl (fst demo_again) \<and>
    map_option (\<lambda>x. (ii_ready x, ii_ip x)) (instance_of demo_gated ''a'') = Some (Some False, 0x0A000009) \<and>
    valid_ip demo_gw demo_gated 0x0A000009"
  by code_simp


text \<open>
  C26. A registration cannot take over another instance: when the WireGuard key belongs to another
  registered instance, or the id is registered to another app, or the id, the app id or the key is
  unusable, it is refused and the state is unchanged.
\<close>

theorem registration_refused:
  assumes "index_ok (st_state st)"
    and "(\<exists>j x. instance_of st j = Some x \<and> j \<noteq> i \<and> ii_public_key x = k) \<or>
      (\<exists>x. instance_of st i = Some x \<and> ii_app_id x \<noteq> app_id) \<or>
      i = [] \<or> app_id = [] \<or> validate_wg_public_key (ge_ext E) k \<noteq> Inr ()"
  shows "\<exists>e. new_client_by_id E now i app_id k h r st = (Inl e, st)"
proof (cases "reg_check E i app_id k st")
  case (Inl e)
  then show ?thesis by (simp add: new_client_refused)
next
  case (Inr u)
  then show ?thesis using assms reg_check_Inr [OF Inr] key_in_use_iff [OF assms(1)] by blast
qed

theorem registration_refused_witness:
  "\<exists>e. new_client_by_id demo_gw 2000 ''c'' ''app'' (demo_key (CHR ''A'')) [] (reported_from None) demo_one = (Inl e, demo_one)"
proof -
  have "index_ok (st_state demo_one)" using demo_one_ok by (simp add: state_ok_def)
  moreover have "map_option ii_public_key (instance_of demo_one ''a'') = Some (demo_key (CHR ''A''))" by code_simp
  ultimately show ?thesis by (intro registration_refused) auto
qed

text \<open>
  Allocation hands out the first free address of the client range that is valid, marks it used and
  changes nothing else; it fails exactly when every valid address of the range is in use.
\<close>

lemma alloc_ip_spec:
  "case alloc_ip E st of
     (None, st') \<Rightarrow> st' = st \<and>
       set (filter (valid_ip E st) (net_hosts (ge_ext E) (wg_client_ip_range (cfg_wg (st_config st)))))
         \<subseteq> set (ps_allocated (st_state st))
   | (Some ip, st') \<Rightarrow> valid_ip E st ip \<and> ip \<notin> set (ps_allocated (st_state st)) \<and>
       ip \<in> set (net_hosts (ge_ext E) (wg_client_ip_range (cfg_wg (st_config st)))) \<and>
       st' = st\<lparr> st_state := st_state st\<lparr> ps_allocated := bs_insert ip (ps_allocated (st_state st)) \<rparr> \<rparr>"
  using alloc_ip_some [of E st] alloc_ip_none [of E st]
  by (cases "alloc_ip E st") (auto split: option.split)

end
