(* ===== verification/Gateway_Select.thy ===== *)
theory Gateway_Select
  imports Gateway_State
begin

text \<open>
  Choosing the instances a connection may go to (\<^verbatim>\<open>select_top_n_hosts\<close> and what it calls in
  \<^verbatim>\<open>gateway/src/main_service.rs\<close>), the report of why a selection is empty, the WireGuard peers and
  the list of gateway nodes.  \<open>tick\<close> is the reading of the monotonic clock, \<open>hs\<close> and \<open>hs'\<close> the results
  of the two reads of the handshake cache a call may make, and \<open>rnd\<close> the random draw of \<^verbatim>\<open>choose\<close>.
\<close>

section \<open>Selection\<close>

record Candidate =
  cd_ip :: ipv4
  cd_handshake_age :: nat
  cd_counter :: counter_ref
  cd_instance_id :: string
  cd_healthy :: bool

definition ALL_UNHEALTHY_WARN_INTERVAL :: nat where
  "ALL_UNHEALTHY_WARN_INTERVAL = 60 * 10 ^ 9"

definition warn_all_unhealthy :: "nat \<Rightarrow> string \<Rightarrow> ProxyStateMut \<Rightarrow> ProxyStateMut" where
  "warn_all_unhealthy tick app_id s =
    (case bt_get (ps_warned s) app_id of
       Some t \<Rightarrow> if tick - t < ALL_UNHEALTHY_WARN_INTERVAL then s
                 else s\<lparr> ps_warned := bt_insert app_id tick (ps_warned s) \<rparr>
     | None \<Rightarrow> s\<lparr> ps_warned := bt_insert app_id tick (ps_warned s) \<rparr>)"

definition retain_healthy ::
  "nat \<Rightarrow> string \<Rightarrow> ('t \<Rightarrow> bool) \<Rightarrow> 't list \<Rightarrow> ProxyStateMut \<Rightarrow> 't list \<times> ProxyStateMut" where
  "retain_healthy tick app_id healthy cs s =
    (if list_ex healthy cs then (filter healthy cs, s)
     else if cs \<noteq> [] then (cs, warn_all_unhealthy tick app_id s)
     else (cs, s))"

definition health_gating_enabled :: "('net, 's) ProxyState \<Rightarrow> bool" where
  "health_gating_enabled st = cfg_health_check_enabled (st_config st)"

definition address_of :: "InstanceInfo \<Rightarrow> AddressInfo" where
  "address_of info = \<lparr> ad_ip = ii_ip info, ad_counter = ii_connections info, ad_instance_id = ii_id info \<rparr>"

definition address_of_candidate :: "Candidate \<Rightarrow> AddressInfo" where
  "address_of_candidate c = \<lparr> ad_ip = cd_ip c, ad_counter = cd_counter c, ad_instance_id = cd_instance_id c \<rparr>"

definition rng_choose :: "nat \<Rightarrow> 'a list \<Rightarrow> 'a option" where
  "rng_choose rnd xs = (if xs = [] then None else Some (xs ! (rnd mod length xs)))"

definition random_select_a_host ::
  "nat \<Rightarrow> kv_error + Handshakes \<Rightarrow> nat \<Rightarrow> string \<Rightarrow> ('net, 's) ProxyState \<Rightarrow> AddressGroup option \<times> ('net, 's) ProxyState" where
  "random_select_a_host tick hs rnd i st =
    (case instance_of st i of
       Some info \<Rightarrow> (Some [address_of info], st)
     | None \<Rightarrow>
        (case bt_get (ps_apps (st_state st)) i of
           None \<Rightarrow> (None, st)
         | Some app_instances \<Rightarrow>
            (case hs of
               Inl _ \<Rightarrow> (None, st)
             | Inr handshakes \<Rightarrow>
                (let eligible = List.map_filter (\<lambda>instance_id.
                       Option.bind (instance_of st instance_id) (\<lambda>info.
                         if is_eligible st handshakes info
                         then Some (instance_id, \<not> health_gating_enabled st \<or> is_healthy info) else None))
                       app_instances;
                     (kept, s') = retain_healthy tick i snd eligible (st_state st);
                     st' = st\<lparr> st_state := s' \<rparr>
                 in (Option.bind (rng_choose rnd kept) (\<lambda>(selected, _).
                       map_option (\<lambda>info. [address_of info]) (instance_of st' selected)), st')))))"

definition candidate_of :: "('net, 's) ProxyState \<Rightarrow> Handshakes \<Rightarrow> string \<Rightarrow> Candidate option" where
  "candidate_of st handshakes instance_id =
    Option.bind (instance_of st instance_id) (\<lambda>info.
      if \<not> is_eligible st handshakes info then None
      else map_option (\<lambda>(_, elapsed).
        \<lparr> cd_ip = ii_ip info, cd_handshake_age = elapsed, cd_counter = ii_connections info,
          cd_instance_id = ii_id info, cd_healthy = (\<not> health_gating_enabled st \<or> is_healthy info) \<rparr>)
        (bt_get handshakes (ii_public_key info)))"

definition cached_top_n :: "nat \<Rightarrow> string \<Rightarrow> ('net, 's) ProxyState \<Rightarrow> AddressGroup option" where
  "cached_top_n tick i st =
    (case bt_get (ps_top_n (st_state st)) i of
       None \<Rightarrow> None
     | Some (top_n, insert_time) \<Rightarrow>
        if top_n \<noteq> [] \<and> tick - insert_time < cfg_cache_top_n (st_config st) then Some top_n else None)"

definition select_random ::
  "nat \<Rightarrow> kv_error + Handshakes \<Rightarrow> nat \<Rightarrow> string \<Rightarrow> ('net, 's) ProxyState
    \<Rightarrow> (state_error + AddressGroup) \<times> ('net, 's) ProxyState" where
  "select_random tick hs' rnd i st =
    (let (g, st') = random_select_a_host tick hs' rnd i st
     in (Inr (case g of None \<Rightarrow> [] | Some a \<Rightarrow> a), st'))"

definition select_fresh_n ::
  "nat \<Rightarrow> Handshakes \<Rightarrow> string \<Rightarrow> string list \<Rightarrow> ('net, 's) ProxyState
    \<Rightarrow> (state_error + AddressGroup) \<times> ('net, 's) ProxyState" where
  "select_fresh_n tick handshakes i app_instances st =
    (let (kept, s') = retain_healthy tick i cd_healthy
           (List.map_filter (candidate_of st handshakes) app_instances) (st_state st);
         selected = map address_of_candidate
           (take (cfg_connect_top_n (st_config st)) (sort_key cd_handshake_age kept))
     in (Inr selected, st\<lparr> st_state := s'\<lparr> ps_top_n := bt_insert i (selected, tick) (ps_top_n s') \<rparr> \<rparr>))"

definition select_top_n_hosts ::
  "nat \<Rightarrow> kv_error + Handshakes \<Rightarrow> kv_error + Handshakes \<Rightarrow> nat \<Rightarrow> string \<Rightarrow> ('net, 's) ProxyState
    \<Rightarrow> (state_error + AddressGroup) \<times> ('net, 's) ProxyState" where
  "select_top_n_hosts tick hs hs' rnd i st =
    (if cfg_insecure_localhost (st_config st) \<and> i = ''localhost''
     then (let (c, st') = fresh_counter st
           in (Inr [\<lparr> ad_ip = 0x7F000001, ad_counter = c, ad_instance_id = ''localhost'' \<rparr>], st'))
     else case instance_of st i of
       Some info \<Rightarrow> (Inr [address_of info], st)
     | None \<Rightarrow>
        (case bt_get (ps_apps (st_state st)) i of
           None \<Rightarrow> (Inl App_not_found, st)
         | Some app_instances \<Rightarrow>
            if cfg_connect_top_n (st_config st) = 0 then select_random tick hs' rnd i st
            else case cached_top_n tick i st of
              Some top_n \<Rightarrow> (Inr top_n, st)
            | None \<Rightarrow>
               (case hs of
                  Inl _ \<Rightarrow> select_random tick hs' rnd i st
                | Inr handshakes \<Rightarrow> select_fresh_n tick handshakes i app_instances st)))"

section \<open>Why a selection is empty\<close>

definition describe_empty_selection :: "kv_error + Handshakes \<Rightarrow> ('net, 's) ProxyState \<Rightarrow> string \<Rightarrow> string" where
  "describe_empty_selection hs st app_id =
    (case bt_get (ps_apps (st_state st)) app_id of
       None \<Rightarrow> ''app '' @ app_id @ '' has no registered instances''
     | Some instance_ids \<Rightarrow>
        (let total = length instance_ids
         in case hs of
              Inl err \<Rightarrow> ''could not read WireGuard handshakes, so none of app '' @ app_id @ [CHR 0x27] @ ''s '' @
                show_nat total @ '' instance(s) could be checked for liveness: '' @ err_display err
            | Inr handshakes \<Rightarrow>
               (let infos = List.map_filter (instance_of st) instance_ids;
                    gated = length (filter (\<lambda>info. \<not> is_ready info) infos);
                    stale = length (filter (\<lambda>info. is_ready info \<and> \<not> handshake_is_fresh st handshakes info) infos)
                in ''no instance of app '' @ app_id @ '' is currently routable: '' @ show_nat total @
                   '' registered, '' @ show_nat gated @ '' gated out by an operator, '' @ show_nat stale @
                   '' with no recent WireGuard handshake'')))"

section \<open>WireGuard peers and gateway nodes\<close>

record WgPeer =
  wp_public_key :: string
  wp_ip :: ipv4

record WgConf =
  wc_private_key :: string
  wc_listen_port :: "16 word"
  wc_peers :: "WgPeer list"

definition generate_wg_config :: "('net, 's) gw_env \<Rightarrow> ('net, 's) ProxyState \<Rightarrow> WgConf" where
  "generate_wg_config E st =
    (let wg = cfg_wg (st_config st)
     in \<lparr> wc_private_key = wg_private_key wg, wc_listen_port = wg_listen_port wg,
          wc_peers = List.map_filter (\<lambda>info.
            if validate_wg_public_key (ge_ext E) (ii_public_key info) \<noteq> Inr () then None
            else if ii_public_key info = wg_public_key wg then None
            else if \<not> is_routable_client_ip (ge_ext E) wg (ii_ip info) then None
            else Some \<lparr> wp_public_key = ii_public_key info, wp_ip = ii_ip info \<rparr>)
            (bt_values (ps_instances (st_state st))) \<rparr>)"

record GatewayNodeInfo =
  gn_id :: node_id
  gn_uuid :: bytes
  gn_wg_public_key :: string
  gn_wg_ip :: string
  gn_wg_endpoint :: string
  gn_url :: string
  gn_last_seen :: nat

definition gateway_nodes :: "'s kv_env \<Rightarrow> 's KvStore \<Rightarrow> nat \<Rightarrow> bool \<Rightarrow> GatewayNodeInfo list" where
  "gateway_nodes E kv now_secs exclude_down =
    (let node_statuses = (if exclude_down then load_all_node_statuses E kv else [])
     in map (\<lambda>(n, node). \<lparr> gn_id = n, gn_uuid = nd_uuid node, gn_wg_public_key = nd_wg_public_key node,
            gn_wg_ip = nd_wg_ip node, gn_wg_endpoint = nd_wg_endpoint node, gn_url = nd_url node,
            gn_last_seen = (case get_node_latest_last_seen E kv now_secs n of None \<Rightarrow> 0 | Some t \<Rightarrow> t) \<rparr>)
          (filter (\<lambda>(n, _). \<not> exclude_down \<or> node_is_active (bt_get node_statuses n)) (load_all_nodes E kv)))"

section \<open>Facts\<close>

lemma set_map_filter: "y \<in> set (List.map_filter f xs) \<longleftrightarrow> (\<exists>x \<in> set xs. f x = Some y)"
  by (force simp: map_filter_def)

lemma warn_frame [simp]:
  "ps_apps (warn_all_unhealthy t a s) = ps_apps s" "ps_instances (warn_all_unhealthy t a s) = ps_instances s"
  "ps_allocated (warn_all_unhealthy t a s) = ps_allocated s" "ps_top_n (warn_all_unhealthy t a s) = ps_top_n s"
  by (simp_all add: warn_all_unhealthy_def split: option.split)

lemma retain_healthy_frame:
  assumes "retain_healthy t a p cs s = (kept, s')"
  shows "ps_apps s' = ps_apps s" "ps_instances s' = ps_instances s" "ps_allocated s' = ps_allocated s"
    "ps_top_n s' = ps_top_n s"
  using assms by (auto simp: retain_healthy_def split: if_splits)

lemma retain_healthy_kept:
  assumes "retain_healthy t a p cs s = (kept, s')"
  shows "kept = (if list_ex p cs then filter p cs else cs)"
  using assms by (auto simp: retain_healthy_def split: if_splits)

text \<open>A state whose tables the invariant reads are unchanged.\<close>

lemma state_ok_tables:
  assumes "ps_apps s' = ps_apps (st_state st)" "ps_instances s' = ps_instances (st_state st)"
    "ps_allocated s' = ps_allocated (st_state st)" "ps_top_n s' = ps_top_n (st_state st)"
  shows "state_ok E (st\<lparr> st_state := s' \<rparr>) = state_ok E st"
  using assms by (simp add: state_ok_def index_ok_def cache_ok_def names_instance_def addr_ok_def keys_ok_def)

lemma random_select_state:
  "\<exists>s'. snd (random_select_a_host t hs r i st) = st\<lparr> st_state := s' \<rparr> \<and>
    ps_apps s' = ps_apps (st_state st) \<and> ps_instances s' = ps_instances (st_state st) \<and>
    ps_allocated s' = ps_allocated (st_state st) \<and> ps_top_n s' = ps_top_n (st_state st)"
proof -
  have same: "st = st\<lparr> st_state := st_state st \<rparr>" by simp
  show ?thesis
    by (auto simp: random_select_a_host_def Let_def intro: same dest: retain_healthy_frame
        split: option.split sum.split prod.split)
qed

lemma candidate_of_Some:
  assumes "candidate_of st h j = Some c"
  obtains info age ts where "instance_of st j = Some info" "is_eligible st h info"
    "bt_get h (ii_public_key info) = Some (ts, age)"
    "c = \<lparr> cd_ip = ii_ip info, cd_handshake_age = age, cd_counter = ii_connections info,
      cd_instance_id = ii_id info, cd_healthy = (\<not> health_gating_enabled st \<or> is_healthy info) \<rparr>"
  using assms by (auto simp: candidate_of_def bind_eq_Some_conv split: if_splits)

lemma eligible_candidate:
  assumes "instance_of st j = Some info" "is_eligible st h info"
  obtains c where "candidate_of st h j = Some c" "cd_instance_id c = ii_id info"
    "cd_healthy c = (\<not> health_gating_enabled st \<or> is_healthy info)"
  using assms that by (auto simp: candidate_of_def is_eligible_def handshake_is_fresh_def split: option.splits)

lemma rng_choose_in: "rng_choose r xs = Some x \<Longrightarrow> x \<in> set xs"
  by (auto simp: rng_choose_def split: if_splits)

lemma random_select_member:
  assumes "index_ok (st_state st)" "instance_of st i = None" "random_select_a_host t hs r i st = (Some g, st')"
    and "ad \<in> set g"
  obtains info h where "hs = Inr h" "instance_of st (ad_instance_id ad) = Some info" "ii_app_id info = i"
    "is_eligible st h info" "ad = address_of info"
proof -
  obtain ids h where ids: "bt_get (ps_apps (st_state st)) i = Some ids" and h: "hs = Inr h"
    using assms(2,3) by (auto simp: random_select_a_host_def split: option.splits sum.splits)
  let ?f = "\<lambda>j. Option.bind (instance_of st j) (\<lambda>info. if is_eligible st h info
      then Some (j, \<not> health_gating_enabled st \<or> is_healthy info) else None)"
  obtain kept s' where k: "retain_healthy t i snd (List.map_filter ?f ids) (st_state st) = (kept, s')"
    by fastforce
  obtain j b info where j: "rng_choose r kept = Some (j, b)" "instance_of (st\<lparr> st_state := s' \<rparr>) j = Some info" "ad = address_of info"
    using assms(2-4) by (auto simp: random_select_a_host_def ids h k bind_eq_Some_conv Let_def)
  have "(j, b) \<in> set (List.map_filter ?f ids)"
    using rng_choose_in [OF j(1)] retain_healthy_kept [OF k] by (auto split: if_splits)
  then obtain info' where info': "j \<in> set ids" "instance_of st j = Some info'" "is_eligible st h info'"
    by (auto simp: set_map_filter bind_eq_Some_conv split: if_splits)
  moreover have "info' = info"
    using info'(2) j(2) retain_healthy_frame(2) [OF k] by (simp add: instance_of_def)
  moreover have "ii_app_id info' = i" "ii_id info' = j"
    using index_member [OF assms(1) ids info'(1)] info'(2) unfolding instance_of_def by (metis option.inject)+
  ultimately show thesis using that [of h info] h j(3) by (simp add: address_of_def)
qed

text \<open>The candidates of a selection that is neither cached nor a fallback.\<close>

definition fresh_selection :: "('net, 's) ProxyState \<Rightarrow> Handshakes \<Rightarrow> string list \<Rightarrow> Candidate list" where
  "fresh_selection st h ids =
    (let cs = List.map_filter (candidate_of st h) ids
     in take (cfg_connect_top_n (st_config st))
          (sort_key cd_handshake_age (if list_ex cd_healthy cs then filter cd_healthy cs else cs)))"

definition by_app :: "string \<Rightarrow> ('net, 's) ProxyState \<Rightarrow> string list \<Rightarrow> bool" where
  "by_app i st ids = (\<not> (cfg_insecure_localhost (st_config st) \<and> i = ''localhost'') \<and> instance_of st i = None \<and>
    bt_get (ps_apps (st_state st)) i = Some ids)"

lemma select_by_app:
  assumes "by_app i st ids"
  shows "select_top_n_hosts tick hs hs' r i st =
    (if cfg_connect_top_n (st_config st) = 0 then select_random tick hs' r i st
     else case cached_top_n tick i st of
       Some g \<Rightarrow> (Inr g, st)
     | None \<Rightarrow> (case hs of Inl _ \<Rightarrow> select_random tick hs' r i st | Inr h \<Rightarrow> select_fresh_n tick h i ids st))"
  using assms by (auto simp: select_top_n_hosts_def by_app_def)

lemma select_not_by_app:
  assumes "\<And>ids. \<not> by_app i st ids"
  shows "snd (select_top_n_hosts tick hs hs' r i st) = st \<or>
    snd (select_top_n_hosts tick hs hs' r i st) = snd (fresh_counter st)"
proof (cases "cfg_insecure_localhost (st_config st) \<and> i = ''localhost''")
  case True
  then show ?thesis by (simp add: select_top_n_hosts_def Let_def fresh_counter_def)
next
  case False
  then have "instance_of st i \<noteq> None \<or> bt_get (ps_apps (st_state st)) i = None"
    using assms by (auto simp: by_app_def)
  then show ?thesis
    unfolding select_top_n_hosts_def if_not_P [OF False] by (auto split: option.split)
qed

lemma cached_top_n_Some:
  assumes "cached_top_n tick i st = Some g"
  obtains t where "bt_get (ps_top_n (st_state st)) i = Some (g, t)"
  using assms by (auto simp: cached_top_n_def split: option.splits prod.splits if_splits)

lemma select_fresh_n_result:
  obtains s' where "ps_apps s' = ps_apps (st_state st)" "ps_instances s' = ps_instances (st_state st)"
    "ps_allocated s' = ps_allocated (st_state st)" "ps_top_n s' = ps_top_n (st_state st)"
    "select_fresh_n tick h i ids st = (Inr (map address_of_candidate (fresh_selection st h ids)),
      st\<lparr> st_state := s'\<lparr> ps_top_n :=
        bt_insert i (map address_of_candidate (fresh_selection st h ids), tick) (ps_top_n s') \<rparr> \<rparr>)"
proof -
  obtain kept s' where k: "retain_healthy tick i cd_healthy (List.map_filter (candidate_of st h) ids) (st_state st) = (kept, s')"
    by fastforce
  show thesis
    using that [OF retain_healthy_frame [OF k]]
    by (simp add: select_fresh_n_def fresh_selection_def Let_def k retain_healthy_kept [OF k])
qed

lemma fresh_selection_member:
  assumes "index_ok (st_state st)" "by_app i st ids" "c \<in> set (fresh_selection st h ids)"
  obtains info ts where "instance_of st (cd_instance_id c) = Some info" "ii_app_id info = i"
    "is_eligible st h info" "address_of_candidate c = address_of info"
    "bt_get h (ii_public_key info) = Some (ts, cd_handshake_age c)"
    "cd_healthy c = (\<not> health_gating_enabled st \<or> is_healthy info)"
proof -
  have "c \<in> set (List.map_filter (candidate_of st h) ids)"
    using assms(3) by (auto simp: fresh_selection_def Let_def dest!: in_set_takeD split: if_splits)
  then obtain j where j: "j \<in> set ids" "candidate_of st h j = Some c" by (auto simp: set_map_filter)
  obtain info age ts where i: "instance_of st j = Some info" "is_eligible st h info"
      "bt_get h (ii_public_key info) = Some (ts, age)"
      "c = \<lparr> cd_ip = ii_ip info, cd_handshake_age = age, cd_counter = ii_connections info,
        cd_instance_id = ii_id info, cd_healthy = (\<not> health_gating_enabled st \<or> is_healthy info) \<rparr>"
    using candidate_of_Some [OF j(2)] .
  have "ii_app_id info = i" "ii_id info = j"
    using index_member [OF assms(1) _ j(1), of i] i(1) assms(2)
    unfolding instance_of_def by_app_def by (metis option.inject)+
  then show thesis using that [of info ts] i by (simp add: address_of_def address_of_candidate_def)
qed

lemma fresh_selection_names:
  assumes "index_ok (st_state st)" "by_app i st ids" "ad \<in> set (map address_of_candidate (fresh_selection st h ids))"
  shows "names_instance (st_state st) i ad"
proof -
  obtain c where c: "c \<in> set (fresh_selection st h ids)" "ad = address_of_candidate c" using assms(3) by auto
  obtain info where "instance_of st (cd_instance_id c) = Some info" "ii_app_id info = i"
      "is_eligible st h info" "address_of_candidate c = address_of info"
    using fresh_selection_member [OF assms(1,2) c(1)] .
  then show ?thesis
    by (simp add: names_instance_def instance_of_def c(2) is_eligible_def address_of_def address_of_candidate_def)
qed

lemma select_random_names:
  assumes "index_ok (st_state st)" "by_app i st ids" "fst (select_random tick hs r i st) = Inr g" "ad \<in> set g"
  shows "names_instance (st_state st) i ad"
proof -
  obtain st' where "random_select_a_host tick hs r i st = (Some g, st')"
    using assms(3,4) by (auto simp: select_random_def Let_def split: prod.splits option.splits)
  then obtain info h where "instance_of st (ad_instance_id ad) = Some info" "ii_app_id info = i"
      "is_eligible st h info" "ad = address_of info"
    using random_select_member [OF assms(1) _ _ assms(4)] assms(2) unfolding by_app_def by metis
  then show ?thesis by (auto simp: names_instance_def instance_of_def is_eligible_def address_of_def)
qed

lemma select_names:
  assumes idx: "index_ok (st_state st)" and cache: "cache_ok (st_state st)" and app: "by_app i st ids"
    and sel: "fst (select_top_n_hosts tick hs hs' r i st) = Inr g" and ad: "ad \<in> set g"
  shows "names_instance (st_state st) i ad"
proof -
  have "names_instance (st_state st) i ad" if "cached_top_n tick i st = Some g"
    using cached_top_n_Some [OF that] cache ad unfolding cache_ok_def by metis
  moreover have "names_instance (st_state st) i ad" if "fst (select_fresh_n tick h i ids st) = Inr g" for h
    using select_fresh_n_result [of st tick h i ids] fresh_selection_names [OF idx app] that ad
    by (metis fst_conv sum.inject(2))
  ultimately show ?thesis
    using sel select_random_names [OF idx app _ ad]
    unfolding select_by_app [OF app] by (auto split: if_splits option.splits sum.splits)
qed

lemma set_top_n_frame:
  "addr_ok v (s\<lparr> ps_top_n := x \<rparr>) = addr_ok v s" "keys_ok (s\<lparr> ps_top_n := x \<rparr>) = keys_ok s"
  "index_ok s \<Longrightarrow> index_ok (s\<lparr> ps_top_n := bt_insert a b (ps_top_n s) \<rparr>)"
  by (simp_all add: addr_ok_def keys_ok_def index_ok_def)

lemma cache_insert_ok:
  assumes "state_ok E st" "\<And>ad. ad \<in> set g \<Longrightarrow> names_instance (st_state st) i ad"
    and "ps_apps s' = ps_apps (st_state st)" "ps_instances s' = ps_instances (st_state st)"
    "ps_allocated s' = ps_allocated (st_state st)" "ps_top_n s' = ps_top_n (st_state st)"
  shows "state_ok E (st\<lparr> st_state := s'\<lparr> ps_top_n := bt_insert i (g, t) (ps_top_n s') \<rparr> \<rparr>)"
proof -
  have same: "names_instance (s'\<lparr> ps_top_n := x \<rparr>) = names_instance (st_state st)" for x
    using assms(4) by (simp add: names_instance_def fun_eq_iff)
  have "cache_ok (s'\<lparr> ps_top_n := bt_insert i (g, t) (ps_top_n s') \<rparr>)"
    unfolding cache_ok_def same using assms(1,2,6) by (simp add: state_ok_def cache_ok_def)
  moreover have "state_ok E (st\<lparr> st_state := s' \<rparr>)"
    using assms(1) state_ok_tables [OF assms(3-6)] by simp
  ultimately show ?thesis by (simp add: state_ok_def set_top_n_frame)
qed

lemma select_fresh_n_ok:
  assumes ok: "state_ok E st" and app: "by_app i st ids"
  shows "state_ok E (snd (select_fresh_n tick h i ids st))"
proof -
  have idx: "index_ok (st_state st)" using ok by (simp add: state_ok_def)
  obtain s' where s': "ps_apps s' = ps_apps (st_state st)" "ps_instances s' = ps_instances (st_state st)"
      "ps_allocated s' = ps_allocated (st_state st)" "ps_top_n s' = ps_top_n (st_state st)"
      "select_fresh_n tick h i ids st = (Inr (map address_of_candidate (fresh_selection st h ids)),
        st\<lparr> st_state := s'\<lparr> ps_top_n :=
          bt_insert i (map address_of_candidate (fresh_selection st h ids), tick) (ps_top_n s') \<rparr> \<rparr>)"
    using select_fresh_n_result [of st tick h i ids] .
  show ?thesis
    unfolding s'(5) snd_conv by (rule cache_insert_ok [OF ok fresh_selection_names [OF idx app] s'(1-4)])
qed

lemma select_random_ok:
  assumes "state_ok E st"
  shows "state_ok E (snd (select_random tick hs r i st))"
  using random_select_state [of tick hs r i st] assms
  by (auto simp: select_random_def Let_def case_prod_beta state_ok_tables)

lemma select_state_ok:
  assumes ok: "state_ok E st"
  shows "state_ok E (snd (select_top_n_hosts tick hs hs' r i st))"
proof (cases "\<exists>ids. by_app i st ids")
  case False
  then show ?thesis
    using ok select_not_by_app [of i st tick hs hs' r] state_ok_frame [of "snd (fresh_counter st)" st]
    by (auto simp: fresh_counter_def)
next
  case True
  then obtain ids where app: "by_app i st ids" by blast
  show ?thesis
    using ok select_random_ok [OF ok] select_fresh_n_ok [OF ok app]
    by (auto simp: select_by_app [OF app] split: option.split sum.split)
qed

section \<open>What a selection is\<close>

text \<open>
  The specification side: the instances of an app that are eligible, cut down to the healthy ones when
  there is any, and the age of an instance's last handshake.
\<close>

definition app_members :: "('net, 's) ProxyState \<Rightarrow> string \<Rightarrow> InstanceInfo set" where
  "app_members st i = {info. \<exists>j. instance_of st j = Some info \<and> ii_app_id info = i}"

definition may_serve :: "('net, 's) ProxyState \<Rightarrow> InstanceInfo \<Rightarrow> bool" where
  "may_serve st info = (\<not> health_gating_enabled st \<or> is_healthy info)"

definition serving :: "('net, 's) ProxyState \<Rightarrow> Handshakes \<Rightarrow> string \<Rightarrow> InstanceInfo set" where
  "serving st h i =
    (let eligible = {info \<in> app_members st i. is_eligible st h info}; healthy = {info \<in> eligible. may_serve st info}
     in if healthy \<noteq> {} then healthy else eligible)"

definition handshake_age :: "Handshakes \<Rightarrow> InstanceInfo \<Rightarrow> nat" where
  "handshake_age h info = (case bt_get h (ii_public_key info) of None \<Rightarrow> 0 | Some (_, elapsed) \<Rightarrow> elapsed)"

definition candidate :: "('net, 's) ProxyState \<Rightarrow> Handshakes \<Rightarrow> InstanceInfo \<Rightarrow> Candidate" where
  "candidate st h info = \<lparr> cd_ip = ii_ip info, cd_handshake_age = handshake_age h info,
    cd_counter = ii_connections info, cd_instance_id = ii_id info, cd_healthy = may_serve st info \<rparr>"

definition serving_list :: "('net, 's) ProxyState \<Rightarrow> Handshakes \<Rightarrow> string list \<Rightarrow> InstanceInfo list" where
  "serving_list st h ids =
    (let eligible = filter (is_eligible st h) (List.map_filter (instance_of st) ids);
         healthy = filter (may_serve st) eligible
     in if healthy \<noteq> [] then healthy else eligible)"

lemma candidates_eq:
  "List.map_filter (candidate_of st h) ids =
    map (candidate st h) (filter (is_eligible st h) (List.map_filter (instance_of st) ids))"
  by (induction ids)
    (auto simp: map_filter_simps candidate_of_def candidate_def may_serve_def handshake_age_def is_eligible_def
      handshake_is_fresh_def split: option.split)

lemma insort_key_map: "insort_key f (g x) (map g xs) = map g (insort_key (f \<circ> g) x xs)"
  by (induction xs) simp_all

lemma sort_key_map: "sort_key f (map g xs) = map g (sort_key (f \<circ> g) xs)"
  by (induction xs) (simp_all add: insort_key_map comp_def)

lemma fresh_selection_eq:
  "map address_of_candidate (fresh_selection st h ids) =
    map address_of (take (cfg_connect_top_n (st_config st)) (sort_key (handshake_age h) (serving_list st h ids)))"
proof -
  have "cd_handshake_age \<circ> candidate st h = handshake_age h" "cd_healthy \<circ> candidate st h = may_serve st"
    "address_of_candidate \<circ> candidate st h = address_of"
    by (simp_all add: candidate_def address_of_candidate_def address_of_def fun_eq_iff)
  then show ?thesis
    unfolding fresh_selection_def serving_list_def candidates_eq Let_def
    by (simp add: sort_key_map filter_map take_map list_ex_iff filter_empty_conv split: if_split)
      (auto simp: candidate_def)
qed

lemma select_fresh_n_fst:
  "fst (select_fresh_n tick h i ids st) = Inr (map address_of
    (take (cfg_connect_top_n (st_config st)) (sort_key (handshake_age h) (serving_list st h ids))))"
  using select_fresh_n_result [of st tick h i ids] fresh_selection_eq by (metis fst_conv)

lemma app_infos:
  assumes "index_ok (st_state st)" "bt_get (ps_apps (st_state st)) i = Some ids"
  shows "distinct (List.map_filter (instance_of st) ids)" "set (List.map_filter (instance_of st) ids) = app_members st i"
    "length (List.map_filter (instance_of st) ids) = length ids"
proof -
  have member: "\<exists>info. instance_of st j = Some info \<and> ii_app_id info = i \<and> ii_id info = j" if "j \<in> set ids" for j
    using index_member [OF assms that] by (metis instance_of_def)
  have "map ii_id (List.map_filter (instance_of st) js) = js" if "set js \<subseteq> set ids" for js
    using that by (induction js) (use member in \<open>fastforce simp: map_filter_simps\<close>)+
  then have ids: "map ii_id (List.map_filter (instance_of st) ids) = ids" by simp
  have "distinct ids" using assms by (auto simp: index_ok_def intro: bs_wf_distinct)
  then show "distinct (List.map_filter (instance_of st) ids)" using ids by (metis distinct_map)
  show "length (List.map_filter (instance_of st) ids) = length ids" using ids by (metis length_map)
  have "j \<in> set ids" if "instance_of st j = Some info" "ii_app_id info = i" for j info
    using index_app [OF assms(1), of j info] that assms(2) by (auto simp: instance_of_def)
  then show "set (List.map_filter (instance_of st) ids) = app_members st i"
    using member by (fastforce simp: set_map_filter app_members_def)
qed

lemma serving_list_set:
  assumes "index_ok (st_state st)" "by_app i st ids"
  shows "set (serving_list st h ids) = serving st h i"
proof -
  have "set (List.map_filter (instance_of st) ids) = app_members st i"
    using app_infos(2) [OF assms(1)] assms(2) by (simp add: by_app_def)
  then show ?thesis
    by (auto simp: serving_list_def serving_def Let_def filter_empty_conv)
qed

lemma serving_list_distinct:
  assumes "index_ok (st_state st)" "by_app i st ids"
  shows "distinct (serving_list st h ids)"
proof -
  have "distinct (List.map_filter (instance_of st) ids)"
    using app_infos(1) [OF assms(1)] assms(2) unfolding by_app_def by blast
  then show ?thesis by (simp add: serving_list_def Let_def)
qed

lemma three_way:
  assumes "\<And>x. P x = (\<not> Q x \<and> \<not> R x)" "\<And>x. Q x \<Longrightarrow> \<not> R x"
  shows "length xs = length (filter P xs) + length (filter Q xs) + length (filter R xs)"
  using assms by (induction xs) auto

lemma take_sorted_least:
  assumes "sorted (map f xs)" "x \<in> set (take n xs)" "y \<in> set xs" "y \<notin> set (take n xs)"
  shows "f x \<le> f y"
proof -
  have "y \<in> set (drop n xs)" using assms(3,4) by (metis append_take_drop_id in_set_conv_decomp set_append Un_iff)
  moreover have "sorted (map f (take n xs) @ map f (drop n xs))"
    using assms(1) by (metis append_take_drop_id map_append)
  ultimately show ?thesis using assms(2) by (auto simp: sorted_append)
qed

section \<open>Properties\<close>

text \<open>
  C16. Selection by app id, when nothing is cached and the handshakes can be read: the result lists
  distinct serving instances (ready, with a fresh handshake, and healthy unless no eligible instance
  is), as many as there are up to the configured number, and no instance left out has a more recent
  handshake than one taken.  In particular an app with an eligible instance is never refused because
  of health.
\<close>

theorem select_top_n_most_recent:
  assumes "state_ok E st" "by_app i st ids" "cfg_connect_top_n (st_config st) \<noteq> 0" "cached_top_n tick i st = None"
  shows "\<exists>chosen. fst (select_top_n_hosts tick (Inr h) hs' r i st) = Inr (map address_of chosen) \<and>
    distinct chosen \<and> set chosen \<subseteq> serving st h i \<and>
    length chosen = min (cfg_connect_top_n (st_config st)) (card (serving st h i)) \<and>
    (\<forall>a \<in> set chosen. \<forall>b \<in> serving st h i - set chosen. handshake_age h a \<le> handshake_age h b)"
proof -
  have idx: "index_ok (st_state st)" using assms(1) by (simp add: state_ok_def)
  note S = serving_list_set [OF idx assms(2), of h] serving_list_distinct [OF idx assms(2), of h]
  let ?xs = "sort_key (handshake_age h) (serving_list st h ids)"
  let ?c = "take (cfg_connect_top_n (st_config st)) ?xs"
  have "fst (select_top_n_hosts tick (Inr h) hs' r i st) = Inr (map address_of ?c)"
    using assms(3,4) by (simp add: select_by_app [OF assms(2)] select_fresh_n_fst)
  moreover have "distinct ?c" using S(2) by (simp add: distinct_take)
  moreover have "set ?c \<subseteq> serving st h i" using S(1) set_take_subset [of _ ?xs] by simp
  moreover have "length ?c = min (cfg_connect_top_n (st_config st)) (card (serving st h i))"
    using S distinct_card [OF S(2)] by (simp add: min.commute)
  moreover have "\<forall>a \<in> set ?c. \<forall>b \<in> serving st h i - set ?c. handshake_age h a \<le> handshake_age h b"
    using take_sorted_least [of "handshake_age h" ?xs] S(1) by auto
  ultimately show ?thesis by blast
qed

text \<open>
  The operator gate holds on every path of the app-id selection, the cached one and the random
  fallback included: whatever is returned names a registered instance of that app, at its current
  address, whose gate is open.
\<close>

lemma select_respects_gate:
  assumes idx: "index_ok (st_state st)" and cache: "cache_ok (st_state st)" and app: "by_app i st ids"
    and sel: "fst (select_top_n_hosts tick hs hs' r i st) = Inr g" and ad: "ad \<in> set g"
  shows "\<exists>info \<in> app_members st i. is_ready info \<and> ad = address_of info"
proof -
  obtain info where "instance_of st (ad_instance_id ad) = Some info" "ii_app_id info = i" "ii_ip info = ad_ip ad"
      "ii_connections info = ad_counter ad" "is_ready info"
    using select_names [OF idx cache app sel ad] by (auto simp: names_instance_def instance_of_def)
  moreover from this have "ii_id info = ad_instance_id ad" using index_key [OF idx] by (simp add: instance_of_def)
  ultimately show ?thesis by (auto simp: app_members_def address_of_def intro!: bexI [of _ info])
qed

text \<open>
  A connection addressed to an instance id reaches that instance whatever its gate, its health and
  its handshakes are.
\<close>

lemma select_by_instance_id:
  assumes "instance_of st i = Some info" "i \<noteq> ''localhost''"
  shows "select_top_n_hosts tick hs hs' r i st = (Inr [address_of info], st)"
  using assms by (simp add: select_top_n_hosts_def)

text \<open>
  The explanation of an empty selection accounts for every instance: on a consistent state the
  registered instances of an app are exactly the gated, the stale and the eligible ones, so the counts
  it prints add up to the total precisely when no instance is eligible.
\<close>

lemma empty_selection_counts:
  assumes "index_ok (st_state st)" "bt_get (ps_apps (st_state st)) i = Some ids"
  shows "let total = card (app_members st i);
      gated = card {info \<in> app_members st i. \<not> is_ready info};
      stale = card {info \<in> app_members st i. is_ready info \<and> \<not> handshake_is_fresh st h info};
      eligible = card {info \<in> app_members st i. is_eligible st h info}
    in count_eligible_instances (Inr h) st i = Inr eligible \<and> total = gated + stale + eligible \<and>
      describe_empty_selection (Inr h) st i = ''no instance of app '' @ i @ '' is currently routable: '' @
        show_nat total @ '' registered, '' @ show_nat gated @ '' gated out by an operator, '' @ show_nat stale @
        '' with no recent WireGuard handshake''"
proof -
  let ?xs = "List.map_filter (instance_of st) ids"
  have d: "distinct ?xs" and set: "set ?xs = app_members st i" and len: "length ?xs = length ids"
    using app_infos [OF assms] by simp_all
  have count: "card {info \<in> app_members st i. P info} = length (filter P ?xs)" for P
    using distinct_card [OF distinct_filter [OF d]] by (simp add: set)
  have "length ?xs = length (filter (\<lambda>x. \<not> is_ready x) ?xs) +
      length (filter (\<lambda>x. is_ready x \<and> \<not> handshake_is_fresh st h x) ?xs) + length (filter (is_eligible st h) ?xs)"
    by (rule three_way) (auto simp: is_eligible_def)
  moreover have "card (app_members st i) = length ids" using distinct_card [OF d] by (simp add: set len)
  ultimately show ?thesis
    unfolding Let_def count by (simp add: count_eligible_instances_def describe_empty_selection_def assms(2) Let_def len)
qed

section \<open>Witnesses\<close>

text \<open>Two registered instances of one app; \<open>b\<close> has the more recent handshake.\<close>

definition demo_hs :: Handshakes where
  "demo_hs = [(demo_key (CHR ''A''), (50, 50)), (demo_key (CHR ''B''), (90, 10))]"

definition demo_choice :: "state_error + AddressGroup" where
  "demo_choice = fst (select_top_n_hosts 5 (Inr demo_hs) (Inl []) 0 ''app'' demo_two)"

lemma demo_two_facts:
  "(demo_choice = Inr [\<lparr> ad_ip = 0x0A00000A, ad_counter = 1, ad_instance_id = ''b'' \<rparr>] \<and>
    cached_top_n 5 ''app'' demo_two = None \<and> instance_of demo_two ''app'' = None) \<and>
    bt_get (ps_apps (st_state demo_two)) ''app'' = Some [''a'', ''b''] \<and>
    cfg_insecure_localhost (st_config demo_two) = False \<and> cfg_connect_top_n (st_config demo_two) = 1 \<and>
    map_option address_of (instance_of demo_two ''a'') = Some \<lparr> ad_ip = 0x0A000009, ad_counter = 0, ad_instance_id = ''a'' \<rparr>"
  by code_simp

lemma demo_by_app: "by_app ''app'' demo_two [''a'', ''b'']"
  using demo_two_facts by (simp add: by_app_def)

theorem select_top_n_most_recent_witness:
  "\<exists>chosen. map address_of chosen = [\<lparr> ad_ip = 0x0A00000A, ad_counter = 1, ad_instance_id = ''b'' \<rparr>] \<and>
    set chosen \<subseteq> serving demo_two demo_hs ''app'' \<and>
    (\<forall>a \<in> set chosen. \<forall>b \<in> serving demo_two demo_hs ''app'' - set chosen. handshake_age demo_hs a \<le> handshake_age demo_hs b)"
proof -
  have "cfg_connect_top_n (st_config demo_two) \<noteq> 0" "cached_top_n 5 ''app'' demo_two = None"
    using demo_two_facts by simp_all
  from select_top_n_most_recent [OF demo_two_ok demo_by_app this, of demo_hs "Inl []" 0, folded demo_choice_def]
  obtain chosen where chosen: "demo_choice = Inr (map address_of chosen)"
      "set chosen \<subseteq> serving demo_two demo_hs ''app''"
      "\<forall>a \<in> set chosen. \<forall>b \<in> serving demo_two demo_hs ''app'' - set chosen. handshake_age demo_hs a \<le> handshake_age demo_hs b"
    by blast
  moreover have "map address_of chosen = [\<lparr> ad_ip = 0x0A00000A, ad_counter = 1, ad_instance_id = ''b'' \<rparr>]"
    using chosen(1) demo_two_facts by (metis sum.inject(2))
  ultimately show ?thesis by metis
qed

end
