(* ===== verification/Gateway_Reload.thy ===== *)
theory Gateway_Reload
  imports Gateway_Select
begin

text \<open>
  Bringing the replicated records into the routing tables: the build at startup and the reload that
  follows every change in the store (\<^verbatim>\<open>build_state_from_kv_store\<close> and
  \<^verbatim>\<open>reload_instances_from_kv_store\<close> in \<^verbatim>\<open>gateway/src/main_service.rs\<close>), with the facts about what
  a reload keeps.
\<close>

section \<open>Reading one record\<close>

type_synonym overrides = "PortPolicy option \<times> bool option"

definition read_overrides ::
  "'s kv_env \<Rightarrow> 's KvStore \<Rightarrow> string \<Rightarrow> LegacyOverrides option \<Rightarrow> overrides kv_res" where
  "read_overrides E kv instance_id legacy =
    rbind (instance_gate E kv instance_id) (\<lambda>gate.
    let ready = (case gate of Some r \<Rightarrow> Some r | None \<Rightarrow> Option.bind legacy lo_ready)
    in rbind (instance_port_policy_override E kv instance_id) (\<lambda>policy.
      Inr (case policy of
             Some (SetPolicy p) \<Rightarrow> Some p
           | Some Cleared \<Rightarrow> None
           | None \<Rightarrow> Option.bind legacy lo_admin_port_policy, ready)))"

definition instance_info_from_record ::
  "overrides kv_res \<Rightarrow> string \<Rightarrow> InstanceRecord \<Rightarrow> bool \<Rightarrow> counter_ref \<Rightarrow> InstanceInfo \<times> string option" where
  "instance_info_from_record overrides instance_id data known_gated counter =
    (let (admin_port_policy, ready, unreadable) =
       (case overrides of
          Inr (policy, ready) \<Rightarrow> (policy, ready, None)
        | Inl err \<Rightarrow> (None, Some False, Some (err_display err)))
     in (\<lparr> ii_id = instance_id, ii_app_id = ir_app_id data, ii_ip = ir_ip data,
           ii_public_key = ir_public_key data, ii_reg_time = decode_ts (ir_reg_time data),
           ii_port_policy = ir_port_policy data, ii_port_policy_hash = ir_port_policy_hash data,
           ii_admin_port_policy = admin_port_policy, ii_ready = ready,
           ii_health = health_from (case ir_health_check data of Some b \<Rightarrow> b | None \<Rightarrow> known_gated),
           ii_connections = counter \<rparr>, unreadable))"

text \<open>The lines a reload logs: what is reported anew, and what has recovered.\<close>

record 'r report =
  rp_logged :: "string list"
  rp_recovered :: "string list"
  rp_reported :: "(string, 'r) btree_map"

definition report_new_rejections ::
  "(string, import_error) btree_map \<Rightarrow> RejectedInstance list \<Rightarrow> import_error report" where
  "report_new_rejections reported rejected =
    (let current = bt_of_list (map (\<lambda>r. (rj_instance_id r, rj_reason r)) rejected)
     in \<lparr> rp_logged = map rj_instance_id (filter (\<lambda>r. bt_get reported (rj_instance_id r) \<noteq> Some (rj_reason r)) rejected),
          rp_recovered = filter (\<lambda>i. \<not> bt_contains current i) (bt_keys reported),
          rp_reported = current \<rparr>)"

definition report_unreadable_overrides ::
  "(string, string) btree_map \<Rightarrow> (string, string) btree_map \<Rightarrow> string report" where
  "report_unreadable_overrides reported bad =
    \<lparr> rp_logged = map fst (filter (\<lambda>(i, reason). bt_get reported i \<noteq> Some reason) bad),
      rp_recovered = filter (\<lambda>i. \<not> bt_contains bad i) (bt_keys reported),
      rp_reported = bad \<rparr>"

section \<open>Startup\<close>

definition build_step ::
  "('net, 's) gw_env \<Rightarrow> 's KvStore \<Rightarrow> (string, LegacyOverrides) btree_map \<Rightarrow> string \<times> InstanceRecord
    \<Rightarrow> ProxyStateMut \<times> counter_ref \<Rightarrow> ProxyStateMut \<times> counter_ref" where
  "build_step E kv legacy_overrides p acc =
    (let (instance_id, data) = p; (s, next) = acc;
         (info, unreadable) = instance_info_from_record
           (read_overrides (ge_kv E) kv instance_id (bt_get legacy_overrides instance_id)) instance_id data False next;
         s1 = s\<lparr> ps_allocated := bs_insert (ir_ip data) (ps_allocated s) \<rparr>
     in (set_record instance_id info (app_insert (ir_app_id data) instance_id s1), Suc next))"

definition build_state_from_kv_store ::
  "('net, 's) gw_env \<Rightarrow> 'net Config \<Rightarrow> system_time \<Rightarrow> 's KvStore \<Rightarrow> LoadedInstances
    \<Rightarrow> (string, LegacyOverrides) btree_map \<Rightarrow> ProxyStateMut \<times> counter_ref" where
  "build_state_from_kv_store E cfg now kv instances legacy_overrides =
    fold (build_step E kv legacy_overrides)
      (ai_instances (accept_instances (ge_ext E) (cfg_wg cfg) instances now)) (default_state, 0)"

section \<open>Reload\<close>

definition LOCAL_REGISTRATION_GRACE :: nat where
  "LOCAL_REGISTRATION_GRACE = 60 * 10 ^ 9"

record ('net, 's) reload =
  rl_st :: "('net, 's) ProxyState"
  rl_wg_changed :: bool
  rl_unreadable :: "(string, string) btree_map"

text \<open>The table updates for one accepted record, given what was known and what replaces it.\<close>

definition leave_app :: "string \<Rightarrow> string \<Rightarrow> ProxyStateMut \<Rightarrow> ProxyStateMut" where
  "leave_app app_id i s =
    (case bt_get (ps_apps s) app_id of
       None \<Rightarrow> s
     | Some ids \<Rightarrow>
        (let ids' = bs_remove i ids
         in if ids' = []
            then s\<lparr> ps_apps := bt_remove app_id (ps_apps s), ps_top_n := bt_remove app_id (ps_top_n s),
                    ps_warned := bt_remove app_id (ps_warned s) \<rparr>
            else s\<lparr> ps_apps := bt_insert app_id ids' (ps_apps s) \<rparr>))"

definition materialize :: "InstanceInfo option \<Rightarrow> InstanceInfo \<Rightarrow> ProxyStateMut \<Rightarrow> ProxyStateMut" where
  "materialize existing new_info s =
    (let i = ii_id new_info;
         s1 = (case existing of
                 None \<Rightarrow> s
               | Some e \<Rightarrow>
                  (let sa = (if ii_ip e \<noteq> ii_ip new_info
                             then s\<lparr> ps_allocated := bs_remove (ii_ip e) (ps_allocated s) \<rparr> else s)
                   in if ii_app_id e \<noteq> ii_app_id new_info then leave_app (ii_app_id e) i sa else sa));
         selection_is_stale = (case existing of None \<Rightarrow> True | Some e \<Rightarrow> routing_inputs_differ e new_info);
         s2 = (if selection_is_stale
               then (case existing of None \<Rightarrow> drop_top_n (ii_app_id new_info) s1
                     | Some e \<Rightarrow> drop_top_n (ii_app_id e) (drop_top_n (ii_app_id new_info) s1))
               else s1);
         s3 = s2\<lparr> ps_allocated := bs_insert (ii_ip new_info) (ps_allocated s2) \<rparr>
     in set_record i new_info (app_insert (ii_app_id new_info) i s3))"

definition reload_info ::
  "overrides kv_res \<Rightarrow> string \<Rightarrow> InstanceRecord \<Rightarrow> InstanceInfo option \<Rightarrow> counter_ref \<Rightarrow> InstanceInfo \<times> string option" where
  "reload_info overrides instance_id data existing counter =
    (let known_gated = (case existing of None \<Rightarrow> False | Some e \<Rightarrow> health_check e);
         (new_info, unreadable) = instance_info_from_record overrides instance_id data known_gated counter
     in (case existing of
           None \<Rightarrow> new_info
         | Some e \<Rightarrow> inherit_health_from e (new_info\<lparr> ii_connections := ii_connections e \<rparr>), unreadable))"

definition reload_one ::
  "string \<times> InstanceRecord \<times> overrides kv_res \<Rightarrow> ('net, 's) reload \<Rightarrow> ('net, 's) reload" where
  "reload_one p rl =
    (let (instance_id, data, overrides) = p;
         (c, st) = fresh_counter (rl_st rl);
         existing = instance_of st instance_id;
         (new_info, unreadable) = reload_info overrides instance_id data existing c;
         changed = (case existing of
                      None \<Rightarrow> True
                    | Some e \<Rightarrow> ii_public_key e \<noteq> ii_public_key new_info \<or> ii_ip e \<noteq> ii_ip new_info)
     in \<lparr> rl_st = upd_state (materialize existing new_info) st,
          rl_wg_changed = (rl_wg_changed rl \<or> changed),
          rl_unreadable = (case unreadable of None \<Rightarrow> rl_unreadable rl
                           | Some reason \<Rightarrow> bt_insert instance_id reason (rl_unreadable rl)) \<rparr>)"

definition gone_instances ::
  "system_time \<Rightarrow> AcceptedInstances \<Rightarrow> ('net, 's) ProxyState \<Rightarrow> string list" where
  "gone_instances now accepted st =
    map fst (filter (\<lambda>(i, info). \<not> bt_contains (ai_instances accepted) i \<and> i \<notin> unreadable accepted \<and>
      LOCAL_REGISTRATION_GRACE < elapsed_or_zero now (ii_reg_time info)) (ps_instances (st_state st)))"

text \<open>
  The store is read before the routing lock is taken: first the migration of legacy overrides, then the
  records that are accepted and the overrides of each.
\<close>

definition reload_kv :: "('net, 's) gw_env \<Rightarrow> ('net, 's) ProxyState \<Rightarrow> 's KvStore" where
  "reload_kv E st = snd (migrate_legacy_instance_overrides (ge_kv E) (st_kv st))"

definition reload_accepted :: "('net, 's) gw_env \<Rightarrow> system_time \<Rightarrow> ('net, 's) ProxyState \<Rightarrow> AcceptedInstances" where
  "reload_accepted E now st =
    accept_instances (ge_ext E) (cfg_wg (st_config st)) (load_all_instances (ge_kv E) (reload_kv E st)) now"

definition reload_overrides :: "('net, 's) gw_env \<Rightarrow> 's KvStore \<Rightarrow> string \<Rightarrow> overrides kv_res" where
  "reload_overrides E kv i =
    read_overrides (ge_kv E) kv i (bt_get (legacy_instance_overrides (ge_kv E) kv) i)"

text \<open>
  Under the lock: report, drop what is gone, materialise every record, report again; after it the
  observations of the removed instances are withdrawn.  The result says whether the WireGuard
  configuration must be applied.
\<close>

definition reload_finish ::
  "('net, 's) gw_env \<Rightarrow> string list \<Rightarrow> ('net, 's) reload \<Rightarrow> bool \<times> ('net, 's) ProxyState" where
  "reload_finish E removed rl = (rl_wg_changed rl, (rl_st rl)\<lparr>
     st_reported_bad_overrides :=
       rp_reported (report_unreadable_overrides (st_reported_bad_overrides (rl_st rl)) (rl_unreadable rl)),
     st_kv := fold (\<lambda>i kv. snd (sync_forget_local_observations (ge_kv E) i kv)) removed (st_kv (rl_st rl)) \<rparr>)"

definition reload_commit ::
  "('net, 's) gw_env \<Rightarrow> (string \<times> InstanceRecord \<times> overrides kv_res) list \<Rightarrow> string list \<Rightarrow> ('net, 's) ProxyState
    \<Rightarrow> bool \<times> ('net, 's) ProxyState" where
  "reload_commit E instances removed st =
    reload_finish E removed (fold reload_one instances
      \<lparr> rl_st = fold (\<lambda>i s. snd (forget_instance i s)) removed st, rl_wg_changed = (removed \<noteq> []), rl_unreadable = [] \<rparr>)"

definition reload_with ::
  "('net, 's) gw_env \<Rightarrow> system_time \<Rightarrow> 's KvStore \<Rightarrow> AcceptedInstances \<Rightarrow> ('net, 's) ProxyState
    \<Rightarrow> bool \<times> ('net, 's) ProxyState" where
  "reload_with E now kv accepted st =
    reload_commit E (map (\<lambda>(i, d). (i, d, reload_overrides E kv i)) (ai_instances accepted))
      (gone_instances now accepted st)
      (st\<lparr> st_kv := kv, st_reported_rejections :=
         rp_reported (report_new_rejections (st_reported_rejections st) (ai_rejected accepted)) \<rparr>)"

definition reload_instances_from_kv_store ::
  "('net, 's) gw_env \<Rightarrow> system_time \<Rightarrow> ('net, 's) ProxyState \<Rightarrow> bool \<times> ('net, 's) ProxyState" where
  "reload_instances_from_kv_store E now st = reload_with E now (reload_kv E st) (reload_accepted E now st) st"

section \<open>Tables after one record\<close>

lemma app_insert_member:
  assumes "index_ok s" "bt_get (ps_instances s) i = Some e"
  shows "app_insert (ii_app_id e) i s = s"
proof -
  obtain ids where ids: "bt_get (ps_apps s) (ii_app_id e) = Some ids" "i \<in> set ids" "bs_wf ids"
    using index_app [OF assms] .
  moreover have "bt_wf (ps_apps s)" using assms(1) by (simp add: index_ok_def)
  ultimately show ?thesis by (simp add: app_insert_def bs_insert_member btm.insert_present)
qed

lemma index_ok_cong:
  assumes "index_ok s" "ps_apps t = ps_apps s" "ps_instances t = ps_instances s" "bt_wf (ps_top_n t)" "bs_wf (ps_allocated t)"
  shows "index_ok t"
  using assms by (simp add: index_ok_def)

lemma cache_replace:
  assumes "cache_ok s" "\<And>a x. bt_get (ps_top_n t) a = Some x \<Longrightarrow> bt_get (ps_top_n s) a = Some x"
    and "ps_instances t = bt_insert i new (ps_instances s)"
    and "\<And>e. bt_get (ps_instances s) i = Some e \<Longrightarrow> bt_get (ps_top_n t) (ii_app_id e) = None"
  shows "cache_ok t"
  unfolding cache_ok_def names_instance_def
proof (intro allI impI)
  fix a g u ad
  assume a: "bt_get (ps_top_n t) a = Some (g, u)" "ad \<in> set g"
  then obtain info where info: "bt_get (ps_instances s) (ad_instance_id ad) = Some info" "ii_app_id info = a"
      "ii_ip info = ad_ip ad" "ii_connections info = ad_counter ad" "is_ready info"
    using assms(1,2) unfolding cache_ok_def names_instance_def by metis
  then have "ad_instance_id ad \<noteq> i" using assms(4) a(1) by force
  then show "\<exists>info. bt_get (ps_instances t) (ad_instance_id ad) = Some info \<and> ii_app_id info = a \<and>
      ii_ip info = ad_ip ad \<and> ii_connections info = ad_counter ad \<and> is_ready info"
    using info by (simp add: assms(3))
qed

lemma leave_app_tables [simp]:
  "ps_instances (leave_app a i s) = ps_instances s" "ps_allocated (leave_app a i s) = ps_allocated s"
  by (simp_all add: leave_app_def Let_def split: option.split)

lemma leave_app_top_n: "bt_get (ps_top_n (leave_app a i s)) b = Some x \<Longrightarrow> bt_get (ps_top_n s) b = Some x"
  by (auto simp: leave_app_def Let_def split: option.splits if_splits)

lemma leave_app_wf: "bt_wf (ps_top_n s) \<Longrightarrow> bt_wf (ps_top_n (leave_app a i s))"
  by (auto simp: leave_app_def Let_def split: option.splits)

lemma leave_app_apps:
  assumes "bt_get (ps_apps s) (ii_app_id e) = Some ids" "ps_apps t = ps_apps s"
  shows "ps_apps (leave_app (ii_app_id e) i t) = ps_apps (forget_state i e s)"
  using assms by (simp add: leave_app_def forget_state_apps Let_def)

lemma leave_index:
  assumes "index_ok s" "bt_get (ps_instances s) i = Some e" "ps_apps t = ps_apps s" "ps_instances t = ps_instances s"
    "bt_wf (ps_top_n t)" "bs_wf (ps_allocated t)"
  shows "index_ok ((leave_app (ii_app_id e) i t)\<lparr> ps_instances := bt_remove i (ps_instances t) \<rparr>)"
proof -
  obtain ids where "bt_get (ps_apps s) (ii_app_id e) = Some ids" using index_app [OF assms(1,2)] .
  then have "ps_apps (leave_app (ii_app_id e) i t) = ps_apps (forget_state i e s)"
    using assms(3) by (rule leave_app_apps)
  then show ?thesis
    using index_ok_cong [OF forget_index [OF assms(1,2)]] assms(4-6) leave_app_wf
    by (simp add: forget_state_tables)
qed

lemma materialize_tables:
  "ps_instances (materialize existing new s) = bt_insert (ii_id new) new (ps_instances s)"
  "bt_get (ps_top_n (materialize existing new s)) a = Some x \<Longrightarrow> bt_get (ps_top_n s) a = Some x"
  by (auto simp: materialize_def Let_def table_simps dest: leave_app_top_n split: option.splits if_splits)

lemma materialize_dropped:
  assumes "existing = Some e" "routing_inputs_differ e new"
  shows "bt_get (ps_top_n (materialize existing new s)) (ii_app_id e) = None"
  using assms by (simp add: materialize_def Let_def table_simps)

lemma materialize_wf:
  assumes "index_ok s"
  shows "bt_wf (ps_top_n (materialize existing new s))" "bs_wf (ps_allocated (materialize existing new s))"
  using assms by (auto simp: materialize_def Let_def table_simps index_ok_def leave_app_wf split: option.split)

lemma materialize_cache:
  assumes "cache_ok s" "existing = bt_get (ps_instances s) (ii_id new)"
    and "\<And>e. existing = Some e \<Longrightarrow> ii_connections new = ii_connections e"
  shows "cache_ok (materialize existing new s)"
proof (cases "\<exists>e. existing = Some e \<and> \<not> routing_inputs_differ e new")
  case False
  then show ?thesis
    using assms(2) materialize_dropped by (intro cache_replace [OF assms(1) materialize_tables(2,1)]) auto
next
  case True
  then obtain e where e: "existing = Some e" "routing_inputs e = routing_inputs new"
    by (auto simp: routing_inputs_differ_def)
  have "cache_ok (set_record (ii_id new) new s)"
    using set_record_cache_same [OF assms(1) _ e(2)] assms(2,3) e(1) by auto
  moreover have "ps_top_n (materialize existing new s) = ps_top_n s"
    using e by (simp add: materialize_def Let_def table_simps routing_inputs_differ_def routing_inputs_eq_iff)
  ultimately show ?thesis
    unfolding cache_ok_def names_instance_def by (simp add: materialize_tables(1) table_simps)
qed

lemma materialize_index:
  assumes idx: "index_ok s" and ex: "existing = bt_get (ps_instances s) (ii_id new)"
  shows "index_ok (materialize existing new s)"
proof -
  let ?i = "ii_id new"
  consider (new) "existing = None" | (same) e where "existing = Some e" "ii_app_id e = ii_app_id new"
    | (moved) e where "existing = Some e" "ii_app_id e \<noteq> ii_app_id new" by (cases existing) auto
  then obtain t where "index_ok t" "ps_apps (materialize existing new s) = ps_apps t"
      "ps_instances t = bt_insert ?i new (ps_instances s)"
  proof cases
    case new
    then have "index_ok (enter new s)" using ex by (intro enter_index [OF idx]) simp
    then show thesis using new that [of "enter new s"] by (simp add: materialize_def Let_def enter_def table_simps)
  next
    case same
    have "index_ok (set_record ?i new s)" using set_record_index [OF idx, of ?i e new] ex same by simp
    moreover have "app_insert (ii_app_id new) ?i s = s" using app_insert_member [OF idx, of ?i e] ex same by simp
    then have "ps_apps (app_insert (ii_app_id new) ?i s) = ps_apps s" by simp
    ultimately show thesis
      using same that [of "set_record ?i new s"] by (simp add: materialize_def Let_def table_simps)
  next
    case moved
    let ?u = "if ii_ip e \<noteq> ii_ip new then s\<lparr> ps_allocated := bs_remove (ii_ip e) (ps_allocated s) \<rparr> else s"
    let ?t = "(leave_app (ii_app_id e) ?i ?u)\<lparr> ps_instances := bt_remove ?i (ps_instances ?u) \<rparr>"
    have "index_ok ?t" using idx ex moved by (intro leave_index [OF idx]) (auto simp: index_ok_def)
    then have "index_ok (enter new ?t)" by (intro enter_index) simp_all
    moreover have "bt_insert ?i new (bt_remove ?i (ps_instances s)) = bt_insert ?i new (ps_instances s)"
      using idx by (intro btm.insert_remove) (simp add: index_ok_def)
    ultimately show thesis
      using moved that [of "enter new ?t"]
      by (simp add: materialize_def Let_def enter_def table_simps routing_inputs_differ_def routing_inputs_eq_iff)
  qed
  then show ?thesis using materialize_wf [OF idx] index_ok_cong by (simp add: materialize_tables(1))
qed

section \<open>The whole reload\<close>

lemma reload_info_fields [simp]:
  "ii_id (fst (reload_info ov i d ex c)) = i" "ii_app_id (fst (reload_info ov i d ex c)) = ir_app_id d"
  "ii_ip (fst (reload_info ov i d ex c)) = ir_ip d" "ii_public_key (fst (reload_info ov i d ex c)) = ir_public_key d"
  "ii_ready (fst (reload_info ov i d ex c)) = (case ov of Inl _ \<Rightarrow> Some False | Inr o' \<Rightarrow> snd o')"
  "ii_admin_port_policy (fst (reload_info ov i d ex c)) = (case ov of Inl _ \<Rightarrow> None | Inr o' \<Rightarrow> fst o')"
  "ii_connections (fst (reload_info ov i d ex c)) = (case ex of None \<Rightarrow> c | Some e \<Rightarrow> ii_connections e)"
  by (simp_all add: reload_info_def instance_info_from_record_def inherit_health_from_def Let_def case_prod_beta
      split: sum.split option.split)

lemma instance_of_fresh [simp]: "instance_of (snd (fresh_counter st)) = instance_of st"
  by (simp add: fun_eq_iff instance_of_def fresh_counter_def)

lemma reload_one_st:
  "rl_st (reload_one (i, d, ov) rl) =
    upd_state (materialize (instance_of (rl_st rl) i) (fst (reload_info ov i d (instance_of (rl_st rl) i) (st_next_counter (rl_st rl)))))
      (snd (fresh_counter (rl_st rl)))"
  by (simp add: reload_one_def Let_def case_prod_beta instance_of_def fresh_counter_def)

definition tables_ok :: "('net, 's) ProxyState \<Rightarrow> bool" where
  "tables_ok st = (index_ok (st_state st) \<and> cache_ok (st_state st))"

lemma reload_one_ok:
  assumes "tables_ok (rl_st rl)"
  shows "tables_ok (rl_st (reload_one p rl))"
proof -
  obtain i d ov where p: "p = (i, d, ov)" by (cases p) auto
  show ?thesis
    using assms unfolding p reload_one_st tables_ok_def
    by (auto simp: fresh_counter_def instance_of_def intro!: materialize_index materialize_cache)
qed

lemma reload_one_instance:
  "instance_of (rl_st (reload_one (i, d, ov) rl)) j = (if j = i
    then Some (fst (reload_info ov i d (instance_of (rl_st rl) i) (st_next_counter (rl_st rl)))) else instance_of (rl_st rl) j)"
  unfolding reload_one_st by (simp add: instance_of_def materialize_tables(1) fresh_counter_def)

lemma reload_fold_ok: "tables_ok (rl_st rl) \<Longrightarrow> tables_ok (rl_st (fold reload_one ps rl))"
  by (induction ps arbitrary: rl) (simp_all add: reload_one_ok)

lemma reload_fold_other:
  "j \<notin> fst ` set ps \<Longrightarrow> instance_of (rl_st (fold reload_one ps rl)) j = instance_of (rl_st rl) j"
  by (induction ps arbitrary: rl) (auto simp: reload_one_instance split: prod.splits)

lemma reload_fold_member:
  assumes "distinct (map fst ps)" "(i, d, ov) \<in> set ps"
  shows "\<exists>c. instance_of (rl_st (fold reload_one ps rl)) i = Some (fst (reload_info ov i d (instance_of (rl_st rl) i) c))"
  using assms
proof (induction ps arbitrary: rl)
  case (Cons p ps)
  obtain j d' ov' where p: "p = (j, d', ov')" by (cases p) auto
  show ?case
  proof (cases "(i, d, ov) \<in> set ps")
    case True
    then have "j \<noteq> i" using Cons.prems(1) p by force
    then show ?thesis using Cons.IH [of "reload_one p rl"] Cons.prems(1) True by (simp add: p reload_one_instance)
  next
    case False
    then have "i \<notin> fst ` set ps" "p = (i, d, ov)" using Cons.prems p by auto
    then show ?thesis by (auto simp: reload_fold_other reload_one_instance)
  qed
qed simp

lemma forget_fold_ok: "tables_ok st \<Longrightarrow> tables_ok (fold (\<lambda>i s. snd (forget_instance i s)) is st)"
proof (induction "is" arbitrary: st)
  case (Cons i "is")
  have "tables_ok (snd (forget_instance i st))"
    using Cons.prems by (auto simp: tables_ok_def forget_instance_def instance_of_def
        intro: forget_index forget_cache split: option.split)
  then show ?case using Cons.IH by simp
qed simp

lemma forget_fold_instance:
  "instance_of (fold (\<lambda>i s. snd (forget_instance i s)) is st) j = (if j \<in> set is then None else instance_of st j)"
proof (induction "is" arbitrary: st)
  case (Cons i "is")
  have "instance_of (snd (forget_instance i st)) k = (if k = i then None else instance_of st k)" for k
    by (auto simp: forget_instance_def instance_of_def forget_state_tables split: option.split)
  then show ?case using Cons.IH by simp
qed simp

lemma reload_unfold:
  fixes st :: "('net, 's) ProxyState"
  obtains rl :: "('net, 's) reload" and st2 :: "('net, 's) ProxyState" where
    "\<And>i. instance_of (snd (reload_instances_from_kv_store E now st)) i = instance_of (rl_st rl) i"
    "tables_ok (snd (reload_instances_from_kv_store E now st)) = tables_ok (rl_st rl)"
    "\<And>i. instance_of st2 i = (if i \<in> set (gone_instances now (reload_accepted E now st) st) then None else instance_of st i)"
    "tables_ok st \<Longrightarrow> tables_ok st2"
    "rl = fold reload_one (map (\<lambda>(i, d). (i, d, reload_overrides E (reload_kv E st) i)) (ai_instances (reload_accepted E now st)))
      \<lparr> rl_st = st2, rl_wg_changed = (gone_instances now (reload_accepted E now st) st \<noteq> []), rl_unreadable = [] \<rparr>"
proof -
  let ?acc = "reload_accepted E now st"
  let ?st1 = "st\<lparr> st_kv := reload_kv E st, st_reported_rejections :=
      rp_reported (report_new_rejections (st_reported_rejections st) (ai_rejected ?acc)) \<rparr>"
  let ?gone = "gone_instances now ?acc st"
  let ?st2 = "fold (\<lambda>i s. snd (forget_instance i s)) ?gone ?st1"
  let ?rl = "fold reload_one (map (\<lambda>(i, d). (i, d, reload_overrides E (reload_kv E st) i)) (ai_instances ?acc))
      \<lparr> rl_st = ?st2, rl_wg_changed = (?gone \<noteq> []), rl_unreadable = [] \<rparr>"
  have "st_state (snd (reload_instances_from_kv_store E now st)) = st_state (rl_st ?rl)"
    by (simp add: reload_instances_from_kv_store_def reload_with_def reload_commit_def reload_finish_def)
  then show thesis
    by (intro that [of ?rl ?st2])
      (simp_all add: instance_of_def [abs_def] tables_ok_def forget_fold_instance [unfolded instance_of_def]
        forget_fold_ok [unfolded tables_ok_def])
qed

lemma reload_accepted_wf: "bt_wf (ai_instances (reload_accepted E now st))"
  unfolding reload_accepted_def accept_instances_def
  by (rule accepted_characterised(1) [OF load_all_instances_wf])

lemma gone_iff:
  assumes "index_ok (st_state st)"
  shows "i \<in> set (gone_instances now acc st) \<longleftrightarrow> bt_get (ai_instances acc) i = None \<and> i \<notin> unreadable acc \<and>
    (\<exists>info. instance_of st i = Some info \<and> LOCAL_REGISTRATION_GRACE < elapsed_or_zero now (ii_reg_time info))"
proof -
  have "bt_wf (ps_instances (st_state st))" using assms by (simp add: index_ok_def)
  then show ?thesis
    by (force simp: gone_instances_def instance_of_def bt_get_iff bt_contains_def)
qed

lemma reload_lookup:
  fixes st :: "('net, 's) ProxyState"
  assumes idx: "index_ok (st_state st)"
  shows "case bt_get (ai_instances (reload_accepted E now st)) i of
      Some d \<Rightarrow> \<exists>c. instance_of (snd (reload_instances_from_kv_store E now st)) i =
        Some (fst (reload_info (reload_overrides E (reload_kv E st) i) i d (instance_of st i) c))
    | None \<Rightarrow> instance_of (snd (reload_instances_from_kv_store E now st)) i =
        (case instance_of st i of
           None \<Rightarrow> None
         | Some info \<Rightarrow> if i \<in> unreadable (reload_accepted E now st) \<or>
             elapsed_or_zero now (ii_reg_time info) \<le> LOCAL_REGISTRATION_GRACE then Some info else None)"
proof -
  let ?acc = "reload_accepted E now st"
  obtain rl :: "('net, 's) reload" and st2 where u:
    "\<And>i. instance_of (snd (reload_instances_from_kv_store E now st)) i = instance_of (rl_st rl) i"
    "\<And>i. instance_of st2 i = (if i \<in> set (gone_instances now ?acc st) then None else instance_of st i)"
    "rl = fold reload_one (map (\<lambda>(i, d). (i, d, reload_overrides E (reload_kv E st) i)) (ai_instances ?acc))
      \<lparr> rl_st = st2, rl_wg_changed = (gone_instances now ?acc st \<noteq> []), rl_unreadable = [] \<rparr>"
    by (rule reload_unfold [of E now st]) blast
  show ?thesis
  proof (cases "bt_get (ai_instances ?acc) i")
    case None
    then have "i \<notin> fst ` set (map (\<lambda>(i, d). (i, d, reload_overrides E (reload_kv E st) i)) (ai_instances ?acc))"
      by (force simp: bt_get_None_iff)
    then have "instance_of (rl_st rl) i = instance_of st2 i" unfolding u(3) by (simp add: reload_fold_other)
    then show ?thesis
      using None by (auto simp: u(1,2) gone_iff [OF idx] split: option.split)
  next
    case (Some d)
    then have "i \<notin> set (gone_instances now ?acc st)" by (simp add: gone_iff [OF idx])
    moreover have "distinct (map fst (map (\<lambda>(i, d). (i, d, reload_overrides E (reload_kv E st) i)) (ai_instances ?acc)))"
      using bt_wf_distinct [OF reload_accepted_wf, of E now st] by (simp add: case_prod_unfold comp_def)
    moreover have "(i, d, reload_overrides E (reload_kv E st) i) \<in> set (map (\<lambda>(i, d). (i, d, reload_overrides E (reload_kv E st) i)) (ai_instances ?acc))"
      using bt_get_in_set [OF Some] by force
    ultimately have "\<exists>c. instance_of (rl_st rl) i = Some (fst (reload_info (reload_overrides E (reload_kv E st) i) i d (instance_of st2 i) c))"
      unfolding u(3) by (intro reload_fold_member [where rl = "\<lparr> rl_st = st2, rl_wg_changed = _, rl_unreadable = [] \<rparr>", simplified])
    then show ?thesis using Some \<open>i \<notin> set (gone_instances now ?acc st)\<close> by (simp add: u(1,2))
  qed
qed

lemma reload_tables_ok:
  assumes "tables_ok st"
  shows "tables_ok (snd (reload_instances_from_kv_store E now st))"
  by (rule reload_unfold [of E now st]) (simp add: reload_fold_ok assms)

section \<open>The state built at startup\<close>

text \<open>What the fold has built after the records \<open>ps\<close>.\<close>

definition built :: "(string \<times> InstanceRecord) list \<Rightarrow> ProxyStateMut \<Rightarrow> bool" where
  "built ps s = (index_ok s \<and> ps_top_n s = [] \<and> set (ps_allocated s) = (ir_ip \<circ> snd) ` set ps \<and>
    fst ` set (ps_instances s) = fst ` set ps \<and>
    (\<forall>j info. bt_get (ps_instances s) j = Some info \<longrightarrow>
      (\<exists>d. (j, d) \<in> set ps \<and> ii_ip info = ir_ip d \<and> ii_public_key info = ir_public_key d \<and> ii_app_id info = ir_app_id d)))"

lemma build_step_eq:
  assumes "ps_top_n s = []"
  obtains info where "fst (build_step E kv legacy (i, d) (s, n)) = materialize None info s" "ii_id info = i"
    "ii_app_id info = ir_app_id d" "ii_ip info = ir_ip d" "ii_public_key info = ir_public_key d"
proof -
  let ?info = "fst (instance_info_from_record (read_overrides (ge_kv E) kv i (bt_get legacy i)) i d False n)"
  have f: "ii_id ?info = i" "ii_app_id ?info = ir_app_id d" "ii_ip ?info = ir_ip d" "ii_public_key ?info = ir_public_key d"
    by (simp_all add: instance_info_from_record_def Let_def case_prod_beta split: sum.split)
  have "drop_top_n a s = s" for a using assms by (simp add: drop_top_n_def bt_remove_def)
  then have "fst (build_step E kv legacy (i, d) (s, n)) = materialize None ?info s"
    by (simp add: build_step_def materialize_def Let_def case_prod_beta f)
  then show thesis using that f by blast
qed

lemma materialize_new:
  assumes "ps_top_n s = []"
  shows "ps_top_n (materialize None info s) = []"
    "ps_allocated (materialize None info s) = bs_insert (ii_ip info) (ps_allocated s)"
  using assms by (simp_all add: materialize_def Let_def table_simps bt_remove_def)

lemma built_step:
  assumes "built ps s" "i \<notin> fst ` set ps"
  shows "built (ps @ [(i, d)]) (fst (build_step E kv legacy (i, d) (s, n)))"
proof -
  have top: "ps_top_n s = []" and idx: "index_ok s" using assms(1) by (simp_all add: built_def)
  obtain info where info: "fst (build_step E kv legacy (i, d) (s, n)) = materialize None info s" "ii_id info = i"
      "ii_app_id info = ir_app_id d" "ii_ip info = ir_ip d" "ii_public_key info = ir_public_key d"
    using build_step_eq [OF top] .
  have "bt_get (ps_instances s) (ii_id info) = None"
    using assms info(2) by (simp add: built_def bt_get_None_iff)
  then have "index_ok (materialize None info s)" by (intro materialize_index [OF idx]) simp
  then show ?thesis
    using assms(1) materialize_new [OF top]
    unfolding built_def info(1) by (auto simp: materialize_tables(1) info)
qed

lemma built_fold:
  assumes "distinct (map fst ps)"
  shows "built ps (fst (fold (build_step E kv legacy) ps (default_state, n)))"
  using assms
proof (induction ps rule: rev_induct)
  case Nil
  show ?case by (simp add: built_def default_state_def index_ok_def)
next
  case (snoc p ps)
  obtain i d where p: "p = (i, d)" by (cases p)
  obtain s m where s: "fold (build_step E kv legacy) ps (default_state, n) = (s, m)" by fastforce
  have "built ps s" "i \<notin> fst ` set ps" using snoc p s by auto
  from built_step [OF this] show ?case by (simp add: s p)
qed

lemma built_state_ok:
  assumes "built ps s" "\<And>i j d e. (i, d) \<in> set ps \<Longrightarrow> (j, e) \<in> set ps \<Longrightarrow> i \<noteq> j \<Longrightarrow> \<not> clashes d e"
  shows "index_ok s \<and> cache_ok s \<and> addr_ok v s \<and> keys_ok s"
proof -
  have rec: "\<exists>d. (j, d) \<in> set ps \<and> ii_ip info = ir_ip d \<and> ii_public_key info = ir_public_key d"
    if "bt_get (ps_instances s) j = Some info" for j info
    using assms(1) that unfolding built_def by blast
  have alloc: "ir_ip d \<in> set (ps_allocated s)" if "(j, d) \<in> set ps" for j d
  proof -
    have "set (ps_allocated s) = (ir_ip \<circ> snd) ` set ps" using assms(1) unfolding built_def by blast
    then show ?thesis using rev_image_eqI [OF that, of "ir_ip d" "ir_ip \<circ> snd"] by simp
  qed
  have "addr_ok v s"
    unfolding addr_ok_def
  proof (intro conjI allI impI)
    fix i info assume "bt_get (ps_instances s) i = Some info"
    then show "ii_ip info \<in> set (ps_allocated s)" using rec alloc by metis
  next
    fix i j a b assume "bt_get (ps_instances s) i = Some a" "bt_get (ps_instances s) j = Some b" "ii_ip a = ii_ip b"
    then show "i = j" using rec [of i a] rec [of j b] assms(2) unfolding clashes_def by metis
  qed
  moreover have "keys_ok s"
    unfolding keys_ok_def
  proof (intro allI impI)
    fix i j a b assume "bt_get (ps_instances s) i = Some a" "bt_get (ps_instances s) j = Some b"
      "ii_public_key a = ii_public_key b"
    then show "i = j" using rec [of i a] rec [of j b] assms(2) unfolding clashes_def by metis
  qed
  ultimately show ?thesis using assms(1) by (simp add: built_def cache_ok_def)
qed

lemma build_state_ok:
  fixes E :: "('net, 's) gw_env"
  assumes "bt_wf (decoded instances)"
  shows "let s = fst (build_state_from_kv_store E cfg now kv instances legacy)
    in index_ok s \<and> cache_ok s \<and> addr_ok v s \<and> keys_ok s"
proof -
  let ?acc = "ai_instances (accept_instances_at (ge_ext E) (cfg_wg cfg) instances (encode_ts now))"
  have wf: "bt_wf ?acc" by (rule accepted_characterised(1) [OF assms])
  show ?thesis
    unfolding Let_def build_state_from_kv_store_def accept_instances_def
    using accepted_no_clash [OF assms] bt_get_iff [OF wf]
    by (intro built_state_ok [OF built_fold [OF bt_wf_distinct [OF wf]]]) blast
qed

section \<open>Properties\<close>

text \<open>
  C17. What a reload leaves for each instance.  An accepted record is materialised with its address,
  key and app, keeping the connection counter and, for an unchanged key, the health this node observed;
  an instance without an accepted record stays only while its record is unreadable or within the grace
  period after its registration, and then unchanged; every other instance is dropped.
\<close>

theorem reload_result:
  fixes st :: "('net, 's) ProxyState"
  assumes "index_ok (st_state st)"
  shows "case bt_get (ai_instances (reload_accepted E now st)) i of
      Some d \<Rightarrow> \<exists>c. instance_of (snd (reload_instances_from_kv_store E now st)) i =
        Some (fst (reload_info (reload_overrides E (reload_kv E st) i) i d (instance_of st i) c))
    | None \<Rightarrow> instance_of (snd (reload_instances_from_kv_store E now st)) i =
        (case instance_of st i of
           None \<Rightarrow> None
         | Some info \<Rightarrow> if i \<in> unreadable (reload_accepted E now st) \<or>
             elapsed_or_zero now (ii_reg_time info) \<le> LOCAL_REGISTRATION_GRACE then Some info else None)"
  by (rule reload_lookup [OF assms])

definition demo_store :: "(string \<times> bytes) list \<Rightarrow> mem_node KvStore" where
  "demo_store xs = demo_kv\<lparr> kv_persistent := demo_node\<lparr> mn_data := map (\<lambda>(k, v). (k, Some v)) xs \<rparr> \<rparr>"

text \<open>The store holds the two demo records with their addresses exchanged.\<close>

definition demo_swap :: "(cidr, mem_node) ProxyState" where
  "demo_swap = demo_two\<lparr> st_kv := demo_store [(''inst/a'', [2]), (''inst/b'', [1])] \<rparr>"

definition demo_now :: system_time where
  "demo_now = 1000 * 10 ^ 9"

lemma demo_swap_accepted:
  "map (\<lambda>(i, d). (i, ir_ip d)) (ai_instances (reload_accepted demo_gw demo_now demo_swap)) =
    [(''a'', 0x0A00000A), (''b'', 0x0A000009)]"
  by code_simp

lemma demo_swap_ok: "index_ok (st_state demo_swap)" "cache_ok (st_state demo_swap)"
  using demo_two_ok by (simp_all add: demo_swap_def state_ok_def)

theorem reload_result_witness:
  "map_option ii_ip (instance_of (snd (reload_instances_from_kv_store demo_gw demo_now demo_swap)) ''a'') = Some 0x0A00000A"
proof -
  obtain d where "bt_get (ai_instances (reload_accepted demo_gw demo_now demo_swap)) ''a'' = Some d" "ir_ip d = 0x0A00000A"
    using demo_swap_accepted by (auto simp: bt_get_def map_eq_Cons_conv)
  then show ?thesis using reload_result [OF demo_swap_ok(1), of demo_gw demo_now "''a''"] by auto
qed

text \<open>
  C21. An operator override that cannot be read closes the gate: after the reload no connection
  addressed to the app id is sent to that instance, on any path of the selection.
\<close>

theorem unreadable_override_closes_gate:
  assumes "index_ok (st_state st)" "cache_ok (st_state st)"
    and acc: "bt_get (ai_instances (reload_accepted E now st)) i = Some d" and bad: "reload_overrides E (reload_kv E st) i = Inl e"
    and app: "by_app a (snd (reload_instances_from_kv_store E now st)) ids"
    and sel: "fst (select_top_n_hosts tick hs hs' r a (snd (reload_instances_from_kv_store E now st))) = Inr g"
  shows "i \<notin> ad_instance_id ` set g"
proof
  let ?st' = "snd (reload_instances_from_kv_store E now st)"
  have tab: "index_ok (st_state ?st')" "cache_ok (st_state ?st')"
    using reload_tables_ok [of st E now] assms(1,2) by (simp_all add: tables_ok_def)
  assume "i \<in> ad_instance_id ` set g"
  then obtain ad where ad: "ad \<in> set g" "ad_instance_id ad = i" by auto
  obtain c where "instance_of ?st' i = Some (fst (reload_info (reload_overrides E (reload_kv E st) i) i d (instance_of st i) c))"
    using reload_lookup [OF assms(1), of E now i] acc by auto
  then show False
    using select_names [OF tab app sel ad(1)] ad(2)
    by (simp add: names_instance_def instance_of_def is_ready_def bad)
qed

definition demo_bad_gate :: "(cidr, mem_node) ProxyState" where
  "demo_bad_gate = demo_two\<lparr> st_kv := demo_store [(''admin/a/ready'', [7]), (''inst/a'', [1])] \<rparr>"

definition demo_reloaded :: "(cidr, mem_node) ProxyState" where
  "demo_reloaded = snd (reload_instances_from_kv_store demo_gw demo_now demo_bad_gate)"

lemma demo_bad_gate_record:
  "bt_contains (ai_instances (reload_accepted demo_gw demo_now demo_bad_gate)) ''a'' \<and>
    isl (reload_overrides demo_gw (reload_kv demo_gw demo_bad_gate) ''a'')"
  by code_simp

lemma demo_bad_gate_reloaded:
  "let st = demo_reloaded in instance_of st ''app'' = None \<and> bt_get (ps_apps (st_state st)) ''app'' = Some [''a''] \<and>
    cfg_insecure_localhost (st_config st) = False \<and> fst (select_top_n_hosts 5 (Inr demo_hs) (Inl []) 0 ''app'' st) = Inr []"
  by code_simp

theorem unreadable_override_closes_gate_witness:
  "fst (select_top_n_hosts 5 (Inr demo_hs) (Inl []) 0 ''app'' demo_reloaded) = Inr ([] :: AddressInfo list) \<and>
    ''a'' \<notin> ad_instance_id ` set ([] :: AddressInfo list)"
proof -
  obtain d e where "bt_get (ai_instances (reload_accepted demo_gw demo_now demo_bad_gate)) ''a'' = Some d"
      "reload_overrides demo_gw (reload_kv demo_gw demo_bad_gate) ''a'' = Inl e"
    using demo_bad_gate_record by (auto simp: bt_contains_def isl_def)
  moreover have "by_app ''app'' demo_reloaded [''a'']"
    using demo_bad_gate_reloaded by (simp add: by_app_def Let_def)
  moreover have "index_ok (st_state demo_bad_gate)" "cache_ok (st_state demo_bad_gate)"
    using demo_two_ok by (simp_all add: demo_bad_gate_def state_ok_def)
  moreover have "fst (select_top_n_hosts 5 (Inr demo_hs) (Inl []) 0 ''app'' demo_reloaded) = Inr []"
    using demo_bad_gate_reloaded by (simp add: Let_def)
  ultimately show ?thesis
    unfolding demo_reloaded_def using unreadable_override_closes_gate by metis
qed

end
