(* ===== verification/Gateway_Service.thy ===== *)
theory Gateway_Service
  imports Gateway_Reload
begin

text \<open>
  The service around the routing state (\<^verbatim>\<open>gateway/src/main_service.rs\<close>, \<^verbatim>\<open>Proxy\<close>/\<^verbatim>\<open>ProxyInner\<close> and the
  RPC handlers; the instance and node handlers of \<^verbatim>\<open>gateway/src/admin_service.rs\<close>): registration as the
  RPC performs it, removal of CVMs and nodes, publication of observations, recycling of stale instances.
  \<open>px_wg_pending\<close> is the capacity-one channel to the WireGuard apply worker, \<open>px_policy_queue\<close> the queue of
  the port-policy fetcher.  A function that takes the routing lock more than once is split at the
  points where it releases it, so that other operations may run in between.
\<close>

section \<open>State\<close>

record ('net, 's) Proxy =
  px_state :: "('net, 's) ProxyState"
  px_wg_pending :: bool
  px_policy_queue :: "string list"
  px_my_app_id :: bytes

definition on_state ::
  "(('net, 's) ProxyState \<Rightarrow> 'r \<times> ('net, 's) ProxyState) \<Rightarrow> ('net, 's) Proxy \<Rightarrow> 'r \<times> ('net, 's) Proxy" where
  "on_state f p = (fst (f (px_state p)), p\<lparr> px_state := snd (f (px_state p)) \<rparr>)"

definition request_wg_apply :: "('net, 's) Proxy \<Rightarrow> ('net, 's) Proxy" where
  "request_wg_apply p = p\<lparr> px_wg_pending := True \<rparr>"

definition queue_policy_fetch :: "string \<Rightarrow> ('net, 's) Proxy \<Rightarrow> ('net, 's) Proxy" where
  "queue_policy_fetch i p = p\<lparr> px_policy_queue := px_policy_queue p @ [i] \<rparr>"

section \<open>Removal by an operator\<close>

record CvmRemoval =
  cr_record_existed :: bool
  cr_removed_locally :: bool

record NodeRemoval =
  nr_record_existed :: bool
  nr_removed_from_peer_set :: bool

record RejectedInstanceReport =
  rr_rejected :: RejectedInstance
  rr_active_locally :: bool

definition remove_cvm ::
  "('net, 's) gw_env \<Rightarrow> string \<Rightarrow> ('net, 's) Proxy \<Rightarrow> (state_error + CvmRemoval) \<times> ('net, 's) Proxy" where
  "remove_cvm E i p =
    (case on_kv (sync_delete_instance (ge_kv E) i) (px_state p) of
       (Inl e, st1) \<Rightarrow> (Inl (Store_failed e), p\<lparr> px_state := st1 \<rparr>)
     | (Inr existed, st1) \<Rightarrow>
        (Inr \<lparr> cr_record_existed = existed, cr_removed_locally = (fst (forget_instance i st1) \<noteq> None) \<rparr>,
         request_wg_apply (p\<lparr> px_state := snd (forget_instance i st1) \<rparr>)))"

definition rejected_instances ::
  "('net, 's) gw_env \<Rightarrow> system_time \<Rightarrow> ('net, 's) Proxy \<Rightarrow> RejectedInstanceReport list" where
  "rejected_instances E now p =
    map (\<lambda>r. \<lparr> rr_rejected = r, rr_active_locally = bt_contains (ps_instances (st_state (px_state p))) (rj_instance_id r) \<rparr>)
      (ai_rejected (accept_instances (ge_ext E) (cfg_wg (st_config (px_state p)))
        (load_all_instances (ge_kv E) (st_kv (px_state p))) now))"

datatype service_error =
    Cannot_remove_self
  | Failed kv_error
  | Bad_id import_error
  | State state_error
  | Invalid_status
  | Port_out_of_range "32 word"
  | Port_is_zero
  | Field_required string
  | Auth_required
  | Not_from_gateway
  | No_app_info
  | Bad_attestation string
  | Not_authorized string

definition remove_node ::
  "('net, 's) gw_env \<Rightarrow> nat \<Rightarrow> node_id \<Rightarrow> ('net, 's) ProxyState \<Rightarrow> (service_error + NodeRemoval) \<times> ('net, 's) ProxyState" where
  "remove_node E now_secs n st =
    (if n = cfg_node_id (st_config st) then (Inl Cannot_remove_self, st)
     else case on_kv (mark_peer_removed (ge_kv E) now_secs n) st of
       (Inl e, st1) \<Rightarrow> (Inl (Failed e), st1)
     | (Inr _, st1) \<Rightarrow>
        (case on_kv (remove_peer (ge_kv E) n) st1 of
           (Inl e, st2) \<Rightarrow> (Inl (Failed e), st2)
         | (Inr _, st2) \<Rightarrow>
            (case on_kv (sync_remove_node (ge_kv E) n) st2 of
               (Inl e, st3) \<Rightarrow> (Inl (Failed e), st3)
             | (Inr existed, st3) \<Rightarrow>
                (Inr \<lparr> nr_record_existed = existed,
                       nr_removed_from_peer_set = (n \<in> set (peer_ids (ge_kv E) (st_kv st))) \<rparr>, st3))))"

section \<open>Publishing observations\<close>

definition sync_connections :: "('net, 's) gw_env \<Rightarrow> ('net, 's) ProxyState \<Rightarrow> ('net, 's) ProxyState" where
  "sync_connections E st =
    st\<lparr> st_kv := fold (\<lambda>(i, count) kv. snd (kv_sync_connections (ge_kv E) i count kv))
      (map (\<lambda>(i, info). (i, unat (st_counters st (ii_connections info)))) (ps_instances (st_state st))) (st_kv st) \<rparr>"

definition observed_handshakes :: "Handshakes \<Rightarrow> ('net, 's) ProxyState \<Rightarrow> (string \<times> nat) list" where
  "observed_handshakes handshakes st =
    List.map_filter (\<lambda>(i, info). map_option (\<lambda>(ts, _). (i, ts)) (bt_get handshakes (ii_public_key info)))
      (ps_instances (st_state st))"

definition refresh_state ::
  "('net, 's) gw_env \<Rightarrow> system_time \<Rightarrow> kv_error + Handshakes \<Rightarrow> ('net, 's) ProxyState \<Rightarrow> (state_error + unit) \<times> ('net, 's) ProxyState" where
  "refresh_state E now hs st =
    (case hs of
       Inl e \<Rightarrow> (Inl (Handshakes_unreadable e), st)
     | Inr handshakes \<Rightarrow>
        (Inr (), st\<lparr> st_kv := snd (sync_node_last_seen (ge_kv E) (cfg_node_id (st_config st)) (encode_ts now)
           (fold (\<lambda>(i, ts) kv. snd (sync_instance_handshake (ge_kv E) i ts kv))
             (observed_handshakes handshakes st) (st_kv st))) \<rparr>))"

section \<open>Recycling\<close>

definition recycle_candidates :: "system_time \<Rightarrow> ('net, 's) ProxyState \<Rightarrow> (string \<times> system_time) list" where
  "recycle_candidates now st =
    map (\<lambda>(i, info). (i, ii_reg_time info))
      (filter (\<lambda>(i, info). cfg_recycle_timeout (st_config st) < elapsed_or_zero now (ii_reg_time info))
        (ps_instances (st_state st)))"

definition recycle_last_seen ::
  "('net, 's) gw_env \<Rightarrow> system_time \<Rightarrow> 's KvStore \<Rightarrow> string \<Rightarrow> system_time \<Rightarrow> system_time" where
  "recycle_last_seen E now kv i reg_time =
    (case get_instance_latest_handshake (ge_kv E) kv (encode_ts now) i of
       Some ts \<Rightarrow> decode_ts ts
     | None \<Rightarrow> reg_time)"

definition recycle_stale ::
  "('net, 's) gw_env \<Rightarrow> nat \<Rightarrow> system_time \<Rightarrow> 's KvStore \<Rightarrow> (string \<times> system_time) list \<Rightarrow> (string \<times> system_time) list" where
  "recycle_stale E timeout now kv candidates =
    filter (\<lambda>(i, reg_time). timeout < elapsed_or_zero now (recycle_last_seen E now kv i reg_time)) candidates"

fun recycle_remove ::
  "('net, 's) gw_env \<Rightarrow> (string \<times> system_time) list \<Rightarrow> nat \<Rightarrow> ('net, 's) ProxyState
    \<Rightarrow> (state_error + nat) \<times> ('net, 's) ProxyState" where
  "recycle_remove E [] n st = (Inr n, st)"
| "recycle_remove E ((i, reg_time) # rest) n st =
    (case instance_of st i of
       None \<Rightarrow> recycle_remove E rest n st
     | Some info \<Rightarrow>
        if ii_reg_time info \<noteq> reg_time then recycle_remove E rest n st
        else (case remove_instance E i st of
                (Inl e, st1) \<Rightarrow> (Inl e, st1)
              | (Inr _, st1) \<Rightarrow> recycle_remove E rest (Suc n) st1))"

definition recycle_apply ::
  "('net, 's) gw_env \<Rightarrow> (string \<times> system_time) list \<Rightarrow> ('net, 's) Proxy \<Rightarrow> (state_error + unit) \<times> ('net, 's) Proxy" where
  "recycle_apply E stale p =
    (if stale = [] then (Inr (), p)
     else case on_state (recycle_remove E stale 0) p of
            (Inl e, p1) \<Rightarrow> (Inl e, p1)
          | (Inr n, p1) \<Rightarrow> (Inr (), if 0 < n then request_wg_apply p1 else p1))"

definition recycle :: "('net, 's) gw_env \<Rightarrow> system_time \<Rightarrow> ('net, 's) Proxy \<Rightarrow> (state_error + unit) \<times> ('net, 's) Proxy" where
  "recycle E now p =
    recycle_apply E (recycle_stale E (cfg_recycle_timeout (st_config (px_state p))) now (st_kv (px_state p))
      (recycle_candidates now (px_state p))) p"

section \<open>Registration\<close>

record WireGuardPeer =
  wgp_pk :: string
  wgp_ip :: string
  wgp_endpoint :: string

record GuestAgentConfig =
  ga_external_port :: nat
  ga_internal_port :: nat
  ga_domain :: string
  ga_ns_prefix :: string

record RegisterCvmResponse =
  rg_client_ip :: ipv4
  rg_servers :: "WireGuardPeer list"
  rg_agent :: GuestAgentConfig
  rg_gateways :: "GatewayNodeInfo list"

definition best_domain :: "('net, 's) gw_env \<Rightarrow> 's KvStore \<Rightarrow> string \<times> 16 word" where
  "best_domain E kv = (case get_best_zt_domain (ge_kv E) kv of Some d \<Rightarrow> d | None \<Rightarrow> ([], 0))"

definition register_response ::
  "('net, 's) gw_env \<Rightarrow> nat \<Rightarrow> InstanceInfo \<Rightarrow> ('net, 's) ProxyState \<Rightarrow> RegisterCvmResponse" where
  "register_response E now_secs info st =
    \<lparr> rg_client_ip = ii_ip info,
      rg_servers = map (\<lambda>n. \<lparr> wgp_pk = gn_wg_public_key n, wgp_ip = gn_wg_ip n, wgp_endpoint = gn_wg_endpoint n \<rparr>)
        (gateway_nodes (ge_kv E) (st_kv st) now_secs True),
      rg_agent = \<lparr> ga_external_port = unat (snd (best_domain E (st_kv st))),
        ga_internal_port = unat (cfg_agent_port (st_config st)),
        ga_domain = fst (best_domain E (st_kv st)), ga_ns_prefix = cfg_ns_prefix (st_config st) \<rparr>,
      rg_gateways = gateway_nodes (ge_kv E) (st_kv st) now_secs True \<rparr>"

definition register_check ::
  "('net, 's) gw_env \<Rightarrow> string \<Rightarrow> string \<Rightarrow> string \<Rightarrow> ('net, 's) ProxyState \<Rightarrow> (state_error + unit)" where
  "register_check E app_id i public_key st =
    rbind (ensure (get_node_status (ge_kv E) (st_kv st) (cfg_node_id (st_config st)) \<noteq> Down) Node_is_down) (\<lambda>_.
    rbind (ensure (app_id \<noteq> []) App_id_empty) (\<lambda>_.
    rbind (ensure (i \<noteq> []) Instance_id_empty) (\<lambda>_.
      case validate_wg_public_key (ge_ext E) public_key of Inl e \<Rightarrow> Inl (Invalid_public_key e) | Inr _ \<Rightarrow> Inr ())))"

definition register_done ::
  "('net, 's) gw_env \<Rightarrow> system_time \<Rightarrow> string \<Rightarrow> InstanceInfo \<Rightarrow> ('net, 's) Proxy
    \<Rightarrow> (state_error + RegisterCvmResponse) \<times> ('net, 's) Proxy" where
  "register_done E now i info p =
    (Inr (register_response E (encode_ts now) info (px_state p)),
     if ii_port_policy info = None then queue_policy_fetch i (request_wg_apply p) else request_wg_apply p)"

definition do_register_cvm ::
  "('net, 's) gw_env \<Rightarrow> system_time \<Rightarrow> string \<Rightarrow> string \<Rightarrow> string \<Rightarrow> string \<Rightarrow> ReportedCapabilities \<Rightarrow> ('net, 's) Proxy
    \<Rightarrow> (state_error + RegisterCvmResponse) \<times> ('net, 's) Proxy" where
  "do_register_cvm E now app_id i public_key compose_hash reported p =
    (case register_check E app_id i public_key (px_state p) of
       Inl e \<Rightarrow> (Inl e, p)
     | Inr _ \<Rightarrow>
        (case on_state (new_client_by_id E now i app_id public_key compose_hash reported) p of
           (Inl e, p1) \<Rightarrow> (Inl e, p1)
         | (Inr info, p1) \<Rightarrow> register_done E now i info p1))"

section \<open>RPC handlers\<close>

record RpcPortAttrs =
  pa_port :: "32 word"
  pa_pp :: bool

record RpcPortPolicy =
  rp_ports :: "RpcPortAttrs list"
  rp_restrict_mode :: bool

definition u16_try_from :: "32 word \<Rightarrow> 16 word option" where
  "u16_try_from w = (if unat w < 2 ^ 16 then Some (ucast w) else None)"

text \<open>The conversion at registration: the ports are collected into a map, the last entry of a port wins.\<close>

definition reported_port :: "RpcPortAttrs \<Rightarrow> (service_error + 16 word \<times> PortFlags)" where
  "reported_port attr =
    (case u16_try_from (pa_port attr) of
       None \<Rightarrow> Inl (Port_out_of_range (pa_port attr))
     | Some port \<Rightarrow> if port = 0 then Inl Port_is_zero else Inr (port, \<lparr> pf_pp = pa_pp attr \<rparr>))"

fun collect_results :: "('e + 'a) list \<Rightarrow> ('e + 'a list)" where
  "collect_results [] = Inr []"
| "collect_results (Inl e # rest) = Inl e"
| "collect_results (Inr x # rest) = rbind (collect_results rest) (\<lambda>xs. Inr (x # xs))"

definition reported_port_policy :: "RpcPortPolicy \<Rightarrow> (service_error + PortPolicy)" where
  "reported_port_policy policy =
    rbind (collect_results (map reported_port (rp_ports policy))) (\<lambda>ports.
      Inr \<lparr> pol_ports = bt_of_list ports, pol_restrict_mode = rp_restrict_mode policy \<rparr>)"

fun proto_ports :: "RpcPortAttrs list \<Rightarrow> (16 word, PortFlags) btree_map \<Rightarrow> (service_error + (16 word, PortFlags) btree_map)" where
  "proto_ports [] ports = Inr ports"
| "proto_ports (attr # rest) ports =
    (case u16_try_from (pa_port attr) of
       None \<Rightarrow> Inl (Port_out_of_range (pa_port attr))
     | Some port \<Rightarrow> proto_ports rest (bt_insert port \<lparr> pf_pp = pa_pp attr \<rparr> ports))"

definition port_policy_from_proto :: "RpcPortPolicy \<Rightarrow> (service_error + PortPolicy)" where
  "port_policy_from_proto proto =
    rbind (proto_ports (rp_ports proto) []) (\<lambda>ports.
      Inr \<lparr> pol_ports = ports, pol_restrict_mode = rp_restrict_mode proto \<rparr>)"

definition port_policy_to_proto :: "PortPolicy \<Rightarrow> RpcPortPolicy" where
  "port_policy_to_proto policy =
    \<lparr> rp_ports = map (\<lambda>(port, flags). \<lparr> pa_port = ucast port, pa_pp = pf_pp flags \<rparr>) (pol_ports policy),
      rp_restrict_mode = pol_restrict_mode policy \<rparr>"

record GetInstancePortPolicyResponse =
  gp_effective :: "RpcPortPolicy option"
  gp_source :: string
  gp_instance_reported :: "RpcPortPolicy option"
  gp_admin_override :: "RpcPortPolicy option"

definition port_policy_view_to_proto :: "PortPolicyView \<Rightarrow> GetInstancePortPolicyResponse" where
  "port_policy_view_to_proto view =
    \<lparr> gp_effective = map_option port_policy_to_proto (effective view), gp_source = source_name view,
      gp_instance_reported = map_option port_policy_to_proto (instance_reported view),
      gp_admin_override = map_option port_policy_to_proto (admin_override view) \<rparr>"

text \<open>
  What a request brings besides its message: the application the client's certificate names and its
  attestation.  Decoding an attestation, asking the authorization service and the hex printer are
  arguments of the handlers.
\<close>

record AppInfo =
  ap_app_id :: bytes
  ap_instance_id :: bytes
  ap_compose_hash :: bytes

record 'att RpcHandler =
  rh_remote_app_id :: "bytes option"
  rh_remote_app_info :: "AppInfo option"
  rh_attestation :: "'att option"

record 'att rpc_ext =
  decode_app_info :: "'att \<Rightarrow> string + AppInfo"
  ensure_app_authorized :: "AppInfo \<Rightarrow> string + unit"
  hex_encode :: "bytes \<Rightarrow> string"

record RegisterCvmRequest =
  rq_client_public_key :: string
  rq_port_policy :: "RpcPortPolicy option"
  rq_health_check :: bool

definition ensure_from_gateway :: "'att RpcHandler \<Rightarrow> ('net, 's) Proxy \<Rightarrow> (service_error + unit)" where
  "ensure_from_gateway h p =
    rbind (ensure (rh_remote_app_id h \<noteq> None) Auth_required) (\<lambda>_.
      ensure (rh_remote_app_id h = Some (px_my_app_id p)) Not_from_gateway)"

definition request_app_info :: "'att rpc_ext \<Rightarrow> 'att RpcHandler \<Rightarrow> (service_error + AppInfo)" where
  "request_app_info X h =
    (case rh_remote_app_info h of
       Some info \<Rightarrow> Inr info
     | None \<Rightarrow>
        (case rh_attestation h of
           None \<Rightarrow> Inl No_app_info
         | Some ra \<Rightarrow> (case decode_app_info X ra of Inl e \<Rightarrow> Inl (Bad_attestation e) | Inr info \<Rightarrow> Inr info)))"

definition register_request ::
  "'att rpc_ext \<Rightarrow> 'att RpcHandler \<Rightarrow> RegisterCvmRequest \<Rightarrow> (service_error + AppInfo \<times> PortPolicy option)" where
  "register_request X h rq =
    rbind (request_app_info X h) (\<lambda>info.
    rbind (case ensure_app_authorized X info of Inl e \<Rightarrow> Inl (Not_authorized e) | Inr _ \<Rightarrow> Inr ()) (\<lambda>_.
    rbind (case rq_port_policy rq of
             None \<Rightarrow> Inr None
           | Some policy \<Rightarrow> rbind (reported_port_policy policy) (\<lambda>pp. Inr (Some pp))) (\<lambda>pp.
      Inr (info, pp))))"

definition register_cvm ::
  "('net, 's) gw_env \<Rightarrow> 'att rpc_ext \<Rightarrow> system_time \<Rightarrow> 'att RpcHandler \<Rightarrow> RegisterCvmRequest \<Rightarrow> ('net, 's) Proxy
    \<Rightarrow> (service_error + RegisterCvmResponse) \<times> ('net, 's) Proxy" where
  "register_cvm E X now h rq p =
    (case register_request X h rq of
       Inl e \<Rightarrow> (Inl e, p)
     | Inr (info, pp) \<Rightarrow>
        (case do_register_cvm E now (hex_encode X (ap_app_id info)) (hex_encode X (ap_instance_id info))
            (rq_client_public_key rq) (hex_encode X (ap_compose_hash info))
            \<lparr> rc_port_policy = pp, rc_health_check = Some (rq_health_check rq) \<rparr> p of
           (Inl e, p1) \<Rightarrow> (Inl (State e), p1)
         | (Inr resp, p1) \<Rightarrow> (Inr resp, p1)))"

definition get_peers ::
  "('net, 's) gw_env \<Rightarrow> 'att RpcHandler \<Rightarrow> ('net, 's) Proxy \<Rightarrow> (service_error + node_id \<times> string \<times> (node_id \<times> string) list)" where
  "get_peers E h p =
    rbind (ensure_from_gateway h p) (\<lambda>_.
      Inr (cfg_node_id (st_config (px_state p)), cfg_my_url (st_config (px_state p)),
        get_all_peer_addrs (ge_kv E) (st_kv (px_state p))))"

section \<open>Operator handlers\<close>

definition set_node_url ::
  "('net, 's) gw_env \<Rightarrow> node_id \<Rightarrow> string \<Rightarrow> ('net, 's) ProxyState \<Rightarrow> (service_error + unit) \<times> ('net, 's) ProxyState" where
  "set_node_url E n url st =
    (case on_kv (clear_peer_removed (ge_kv E) n) st of
       (Inl e, st1) \<Rightarrow> (Inl (Failed e), st1)
     | (Inr _, st1) \<Rightarrow>
        (case on_kv (register_peer_url (ge_kv E) n url) st1 of
           (Inl e, st2) \<Rightarrow> (Inl (Failed e), st2)
         | (Inr _, st2) \<Rightarrow> (Inr (), st2)))"

definition admin_set_node_status ::
  "('net, 's) gw_env \<Rightarrow> node_id \<Rightarrow> string \<Rightarrow> ('net, 's) ProxyState \<Rightarrow> (service_error + unit) \<times> ('net, 's) ProxyState" where
  "admin_set_node_status E n status st =
    (case (if status = ''up'' then Some Up else if status = ''down'' then Some Down else None) of
       None \<Rightarrow> (Inl Invalid_status, st)
     | Some s \<Rightarrow>
        (case on_kv (set_node_status (ge_kv E) n s) st of
           (Inl e, st1) \<Rightarrow> (Inl (Failed e), st1)
         | (Inr _, st1) \<Rightarrow> (Inr (), st1)))"

definition admin_remove_cvm ::
  "('net, 's) gw_env \<Rightarrow> string \<Rightarrow> ('net, 's) Proxy \<Rightarrow> (service_error + CvmRemoval) \<times> ('net, 's) Proxy" where
  "admin_remove_cvm E i p =
    (case validate_id ''instance_id'' i of
       Inl e \<Rightarrow> (Inl (Bad_id e), p)
     | Inr _ \<Rightarrow>
        (case remove_cvm E i p of
           (Inl e, p1) \<Rightarrow> (Inl (State e), p1)
         | (Inr removal, p1) \<Rightarrow> (Inr removal, p1)))"

definition set_instance_port_policy ::
  "('net, 's) gw_env \<Rightarrow> string \<Rightarrow> RpcPortPolicy option \<Rightarrow> ('net, 's) ProxyState \<Rightarrow> (service_error + unit) \<times> ('net, 's) ProxyState" where
  "set_instance_port_policy E i policy st =
    (case policy of
       None \<Rightarrow> (Inl (Field_required ''port policy''), st)
     | Some proto \<Rightarrow>
        (case port_policy_from_proto proto of
           Inl e \<Rightarrow> (Inl e, st)
         | Inr pp \<Rightarrow>
            (case set_admin_port_policy E i pp st of
               (Inl e, st1) \<Rightarrow> (Inl (State e), st1)
             | (Inr _, st1) \<Rightarrow> (Inr (), st1))))"

definition get_instance_port_policy ::
  "string \<Rightarrow> ('net, 's) ProxyState \<Rightarrow> (service_error + GetInstancePortPolicyResponse)" where
  "get_instance_port_policy i st =
    (case instance_port_policy_view st i of
       None \<Rightarrow> Inl (State (Instance_not_found i))
     | Some view \<Rightarrow> Inr (port_policy_view_to_proto view))"

definition set_instance_ready ::
  "('net, 's) gw_env \<Rightarrow> kv_error + Handshakes \<Rightarrow> string \<Rightarrow> bool option \<Rightarrow> ('net, 's) ProxyState
    \<Rightarrow> (service_error + unit) \<times> ('net, 's) ProxyState" where
  "set_instance_ready E hs i ready st =
    (case ready of
       None \<Rightarrow> (Inl (Field_required ''ready''), st)
     | Some r \<Rightarrow>
        (case set_ready E hs i r st of
           ((Inl e, _), st1) \<Rightarrow> (Inl (State e), st1)
         | ((Inr _, _), st1) \<Rightarrow> (Inr (), st1)))"

section \<open>The tables under every operation\<close>

context instance_edit
begin

lemma edit_tables: "tables_ok st \<Longrightarrow> tables_ok (snd (edit_instance i edit st))"
  by (simp add: tables_ok_def edit_index edit_cache)

end

lemma tables_ok_frame: "st_state st = st_state st' \<Longrightarrow> tables_ok st = tables_ok st'"
  by (simp add: tables_ok_def)

lemma tables_ok_update [simp]:
  "tables_ok (st\<lparr> st_kv := kv \<rparr>) = tables_ok st" "tables_ok (st\<lparr> st_counters := c \<rparr>) = tables_ok st"
  "tables_ok (snd (on_kv f st)) = tables_ok st" "tables_ok (snd (persist_instance_gate E i st)) = tables_ok st"
  "tables_ok (snd (persist_instance_port_policy_override E i st)) = tables_ok st"
  "tables_ok (snd (persist_instance_record E i st)) = tables_ok st"
  by (rule tables_ok_frame; simp)+

lemma allocate_client_tables:
  assumes ok: "tables_ok st" and fits: "fits i app_id previous st"
  shows "tables_ok (snd (allocate_client E now i app_id k h r previous st))"
proof (cases "alloc_ip E st")
  case (Pair o' st')
  show ?thesis
  proof (cases o')
    case None
    then show ?thesis using ok Pair alloc_ip_none(1) [of E st st'] by (simp add: allocate_client_def)
  next
    case (Some ip)
    note a = alloc_ip_some(4) [OF Pair [unfolded Some]]
    have wf: "bs_wf (ps_allocated (st_state st))" using ok by (simp add: tables_ok_def index_ok_def)
    have old: "bt_get (ps_instances (st_state st)) i = Some old \<Longrightarrow> ii_app_id old = app_id" for old
      using fits by (auto simp: fits_def instance_of_def)
    let ?info = "rebuild_info now i app_id k h r previous ip (st_next_counter st)"
    let ?s = "st_state st\<lparr> ps_allocated := bs_insert ip (ps_allocated (st_state st)) \<rparr>"
    have "index_ok (enter ?info ?s)"
      using ok wf old by (intro enter_index) (simp_all add: tables_ok_def rebuild_info_ids [OF fits])
    moreover have "cache_ok (enter ?info ?s)"
      using ok old by (intro enter_cache) (simp_all add: tables_ok_def rebuild_info_ids [OF fits])
    ultimately show ?thesis
      using Pair Some by (simp add: allocate_client_def fresh_counter_def tables_ok_def Let_def a)
  qed
qed

lemma new_client_tables:
  assumes ok: "tables_ok st"
  shows "tables_ok (snd (new_client_by_id E now i app_id k h r st))"
proof (cases "reg_check E i app_id k st")
  case (Inl e)
  then show ?thesis using ok by (simp add: new_client_refused)
next
  case (Inr u)
  let ?edit = "reregister now k h r"
  show ?thesis
  proof (cases "instance_of st i")
    case None
    then have "edit_instance i ?edit st = (None, st)" by (simp add: edit_instance_def)
    then show ?thesis
      using allocate_client_tables [OF ok, of i app_id None] None by (simp add: new_client_allowed [OF Inr] fits_def)
  next
    case (Some old)
    define st1 where "st1 = snd (edit_instance i ?edit st)"
    define x where "x = snd (?edit old)"
    let ?st2 = "upd_state (\<lambda>s. s\<lparr> ps_allocated := bs_remove (ii_ip x) (ps_allocated s) \<rparr>) st1"
    have e: "edit_instance i ?edit st = (Some x, st1)"
      using Some by (simp add: rereg.edit_result reregister_fst st1_def x_def)
    have ok1: "tables_ok st1" using ok by (simp add: st1_def rereg.edit_tables)
    have x: "instance_of st1 i = Some x" "ii_id x = i" "ii_app_id x = app_id"
      using Some ok reg_check_Inr(5) [OF Inr Some] index_key [of "st_state st" i old]
      by (simp_all add: st1_def x_def instance_of_def rereg.edit_instances rereg.keeps_id rereg.keeps_app tables_ok_def)
    have "tables_ok ?st2"
      using ok1 by (simp add: tables_ok_def index_ok_def [of "st_state st1"])
    moreover have "fits i app_id (Some x) ?st2" using x by (simp add: fits_def instance_of_def)
    ultimately show ?thesis
      using ok1 by (simp add: new_client_allowed [OF Inr] e allocate_client_tables)
  qed
qed

lemma forget_instance_tables: "tables_ok st \<Longrightarrow> tables_ok (snd (forget_instance i st))"
  by (auto simp: tables_ok_def forget_instance_def instance_of_def intro: forget_index forget_cache split: option.split)

lemma remove_instance_tables: "tables_ok st \<Longrightarrow> tables_ok (snd (remove_instance E i st))"
  using forget_instance_tables [of st i] by (auto simp: remove_instance_def split: prod.split option.split)

lemma set_info_tables:
  assumes "tables_ok st" "instance_of st i = Some info" "ii_id new = ii_id info"
    "routing_inputs info = routing_inputs new" "ii_connections new = ii_connections info"
  shows "tables_ok (set_info i new st)"
proof -
  have i: "bt_get (ps_instances (st_state st)) i = Some info" using assms(2) by (simp add: instance_of_def)
  show ?thesis
    using assms(1,3,4,5) index_key [OF _ i] set_record_index [OF _ i] set_record_cache_same [OF _ i]
    by (simp add: tables_ok_def set_info_def routing_inputs_eq_iff)
qed

lemma policy_ops_tables:
  assumes "tables_ok st"
  shows "tables_ok (update_instance_port_policy E i p st)" "tables_ok (snd (set_admin_port_policy E i p st))"
    "tables_ok (snd (clear_admin_port_policy E i st))"
  using assms set_info_tables [OF assms]
  by (auto simp: update_instance_port_policy_def set_admin_port_policy_def clear_admin_port_policy_def
      routing_inputs_eq_iff Let_def split: option.split)

lemma set_ready_tables:
  assumes "tables_ok st"
  shows "tables_ok (snd (set_ready E hs i ready st))"
proof -
  let ?st1 = "snd (edit_instance i (\<lambda>info. ((is_ready info, ii_app_id info), info\<lparr> ii_ready := Some ready \<rparr>)) st)"
  have "snd (set_ready E hs i ready st) = ?st1 \<or> snd (set_ready E hs i ready st) = snd (persist_instance_gate E i ?st1)"
    by (auto simp: set_ready_def Let_def split: option.split prod.split sum.split)
  then show ?thesis using gate.edit_tables [OF assms] by auto
qed

lemma remove_instance_Inr: "instance_of st i = Some info \<Longrightarrow> fst (remove_instance E i st) = Inr ()"
  by (simp add: remove_instance_def forget_instance_def)

definition recycles :: "(string \<times> system_time) \<Rightarrow> ('net, 's) ProxyState \<Rightarrow> bool" where
  "recycles c st = (map_option ii_reg_time (instance_of st (fst c)) = Some (snd c))"

lemma recycle_remove_Cons:
  "recycle_remove E (c # rest) n st = (if recycles c st
    then recycle_remove E rest (Suc n) (snd (remove_instance E (fst c) st)) else recycle_remove E rest n st)"
proof (cases "instance_of st (fst c)")
  case None
  then show ?thesis by (cases c) (simp add: recycles_def)
next
  case (Some info)
  then show ?thesis
    using remove_instance_Inr [OF Some, of E]
    by (cases c; cases "remove_instance E (fst c) st") (auto simp: recycles_def)
qed

declare recycle_remove.simps(2) [simp del]

lemma recycle_remove_inv:
  assumes "\<And>i st. I st \<Longrightarrow> I (snd (remove_instance E i st))" "I st"
  shows "I (snd (recycle_remove E stale n st))"
  using assms(2) by (induction stale arbitrary: n st) (simp_all add: recycle_remove_Cons assms(1))

lemmas recycle_remove_tables = recycle_remove_inv [where I = tables_ok, OF remove_instance_tables]
lemmas recycle_remove_state_ok = recycle_remove_inv [where I = "state_ok E" for E, OF remove_instance_ok]

lemma recycle_remove_Inr: "isl (fst (recycle_remove E stale n st)) = False"
  by (induction stale arbitrary: n st) (simp_all add: recycle_remove_Cons)

section \<open>What recycling and registration leave\<close>

lemma remove_instance_lookup: "instance_of (snd (remove_instance E j st)) i = (if i = j then None else instance_of st i)"
proof -
  have "st_state (snd (remove_instance E j st)) = st_state (snd (forget_instance j st))"
    by (simp add: remove_instance_def split: prod.split option.split)
  then show ?thesis
    by (auto simp: instance_of_def forget_instance_state forget_state_tables split: option.split)
qed

lemma recycle_remove_lookup:
  "instance_of (snd (recycle_remove E stale n st)) i =
    (if \<exists>c \<in> set stale. fst c = i \<and> recycles c st then None else instance_of st i)"
proof (induction stale arbitrary: n st)
  case (Cons c rest)
  have "recycles d (snd (remove_instance E (fst c) st)) = (recycles d st \<and> fst d \<noteq> fst c)" for d
    by (auto simp: recycles_def remove_instance_lookup)
  then show ?case
    by (auto simp: recycle_remove_Cons Cons.IH remove_instance_lookup recycles_def)
qed simp

lemma recycle_remove_count:
  "fst (recycle_remove E stale n st) = Inr m \<Longrightarrow> n \<le> m \<and> (n < m \<longleftrightarrow> (\<exists>c \<in> set stale. recycles c st))"
proof (induction stale arbitrary: n st)
  case (Cons c rest)
  show ?case
  proof (cases "recycles c st")
    case True
    then show ?thesis using Cons.IH [of "Suc n" "snd (remove_instance E (fst c) st)"] Cons.prems
      by (auto simp: recycle_remove_Cons)
  next
    case False
    then show ?thesis using Cons.IH [of n st] Cons.prems by (simp add: recycle_remove_Cons)
  qed
qed simp

lemma recycle_apply_result:
  "fst (recycle_apply E stale p) = Inr ()"
  "px_state (snd (recycle_apply E stale p)) = snd (recycle_remove E stale 0 (px_state p))"
  "px_wg_pending (snd (recycle_apply E stale p)) =
    (px_wg_pending p \<or> (\<exists>c \<in> set stale. recycles c (px_state p)))"
proof -
  obtain m st' where r: "recycle_remove E stale 0 (px_state p) = (Inr m, st')"
    using recycle_remove_Inr [of E stale 0 "px_state p"]
    by (cases "recycle_remove E stale 0 (px_state p)"; cases "fst (recycle_remove E stale 0 (px_state p))") auto
  note c = recycle_remove_count [of E stale 0 "px_state p" m]
  show "fst (recycle_apply E stale p) = Inr ()"
    "px_state (snd (recycle_apply E stale p)) = snd (recycle_remove E stale 0 (px_state p))"
    "px_wg_pending (snd (recycle_apply E stale p)) = (px_wg_pending p \<or> (\<exists>c \<in> set stale. recycles c (px_state p)))"
    using c r by (cases "stale = []"; auto simp: recycle_apply_def on_state_def request_wg_apply_def)+
qed

lemma recycle_stale_iff:
  assumes "bt_wf (ps_instances (st_state st))"
  shows "(i, t) \<in> set (recycle_stale E timeout now kv (recycle_candidates now st)) \<longleftrightarrow>
    (\<exists>info. instance_of st i = Some info \<and> ii_reg_time info = t) \<and>
    cfg_recycle_timeout (st_config st) < elapsed_or_zero now t \<and>
    timeout < elapsed_or_zero now (recycle_last_seen E now kv i t)"
  by (auto simp: recycle_stale_def recycle_candidates_def instance_of_def bt_get_iff [OF assms] image_iff)

text \<open>The peers a rendered configuration has: exactly the usable records.\<close>

lemma generate_wg_config_peers:
  assumes "bt_wf (ps_instances (st_state st))"
  shows "peer \<in> set (wc_peers (generate_wg_config E st)) \<longleftrightarrow>
    (\<exists>i info. instance_of st i = Some info \<and> peer = \<lparr> wp_public_key = ii_public_key info, wp_ip = ii_ip info \<rparr> \<and>
      validate_wg_public_key (ge_ext E) (ii_public_key info) = Inr () \<and>
      ii_public_key info \<noteq> wg_public_key (cfg_wg (st_config st)) \<and>
      is_routable_client_ip (ge_ext E) (cfg_wg (st_config st)) (ii_ip info))"
  by (auto simp: generate_wg_config_def Let_def set_map_filter bt_values_get [OF assms] instance_of_def Bex_def
      split: if_splits)

text \<open>
  The instances a recycling round is meant to drop: still the registration the snapshot \<open>st0\<close> saw,
  registered longer ago than the timeout, and not seen by the cluster within the timeout.
\<close>

definition recycle_due ::
  "('net, 's) gw_env \<Rightarrow> nat \<Rightarrow> system_time \<Rightarrow> 's KvStore \<Rightarrow> ('net, 's) ProxyState \<Rightarrow> ('net, 's) ProxyState \<Rightarrow> string \<Rightarrow> bool" where
  "recycle_due E timeout now kv st0 st i =
    (case (instance_of st0 i, instance_of st i) of
       (Some old, Some info) \<Rightarrow> ii_reg_time old = ii_reg_time info \<and>
         timeout < elapsed_or_zero now (ii_reg_time info) \<and>
         timeout < elapsed_or_zero now (recycle_last_seen E now kv i (ii_reg_time info))
     | _ \<Rightarrow> False)"


lemma do_register_cases:
  assumes "do_register_cvm E now app_id i k h r p = (Inr resp, p')"
  obtains info st' where "register_check E app_id i k (px_state p) = Inr ()"
    "new_client_by_id E now i app_id k h r (px_state p) = (Inr info, st')"
    "px_state p' = st'" "px_wg_pending p'" "rg_client_ip resp = ii_ip info"
    "px_policy_queue p' = (if ii_port_policy info = None then px_policy_queue p @ [i] else px_policy_queue p)"
proof -
  obtain u where chk: "register_check E app_id i k (px_state p) = Inr u"
    using assms by (auto simp: do_register_cvm_def split: sum.splits)
  obtain info st' where new: "new_client_by_id E now i app_id k h r (px_state p) = (Inr info, st')"
    using assms chk by (cases "new_client_by_id E now i app_id k h r (px_state p)")
      (auto simp: do_register_cvm_def on_state_def split: sum.splits)
  have "register_done E now i info (p\<lparr> px_state := st' \<rparr>) = (Inr resp, p')"
    using assms chk new by (simp add: do_register_cvm_def on_state_def)
  then show thesis
    using chk new that [of info st']
    by (auto simp: register_done_def register_response_def queue_policy_fetch_def request_wg_apply_def split: if_splits)
qed

lemma register_check_Inr:
  assumes "register_check E app_id i k st = Inr ()"
  shows "get_node_status (ge_kv E) (st_kv st) (cfg_node_id (st_config st)) \<noteq> Down" "app_id \<noteq> []" "i \<noteq> []"
    "validate_wg_public_key (ge_ext E) k = Inr ()"
  using assms by (auto simp: register_check_def rbind_eq_Inr ensure_eq_Inr split: sum.splits)

lemma new_client_config: "st_config (snd (new_client_by_id E now i app_id k h r st)) = st_config st"
proof -
  have alloc: "st_config (snd (allocate_client E now i app_id k h r prev st)) = st_config st" for prev st
    by (auto simp: allocate_client_def alloc_ip_def fresh_counter_def Let_def split: option.split prod.split)
  show ?thesis
  proof (cases "reg_check E i app_id k st")
    case (Inr u)
    obtain o' st1 where e: "edit_instance i (reregister now k h r) st = (o', st1)" by fastforce
    then have "st_config st1 = st_config st" using rereg.edit_config [of i now k h r st] by simp
    then show ?thesis
      by (cases o') (simp_all add: new_client_by_id_def Inr e alloc Let_def split: prod.split)
  qed (simp add: new_client_by_id_def)
qed

text \<open>
  C15. A CVM whose registration succeeds is reachable once the interface is reconfigured: the answer
  carries a valid address of this node, an apply is requested, and the configuration rendered from
  the new state has exactly one peer with the CVM's key and exactly one with its address, namely this
  one, unless the CVM presented the gateway's own key.  A node marked down accepts no registration.
\<close>

theorem register_reaches_wireguard:
  assumes ok: "state_ok E (px_state p)" and reg: "do_register_cvm E now app_id i k h r p = (Inr resp, p')"
    and own: "k \<noteq> wg_public_key (cfg_wg (st_config (px_state p)))"
  shows "valid_ip E (px_state p) (rg_client_ip resp) \<and> px_wg_pending p' \<and>
    (\<forall>peer. peer \<in> set (wc_peers (generate_wg_config E (px_state p'))) \<and>
        (wp_public_key peer = k \<or> wp_ip peer = rg_client_ip resp) \<longleftrightarrow>
      peer = \<lparr> wp_public_key = k, wp_ip = rg_client_ip resp \<rparr>) \<and>
    get_node_status (ge_kv E) (st_kv (px_state p)) (cfg_node_id (st_config (px_state p))) \<noteq> Down"
proof -
  obtain info st' where chk: "register_check E app_id i k (px_state p) = Inr ()"
    and new: "new_client_by_id E now i app_id k h r (px_state p) = (Inr info, st')"
    and p': "px_state p' = st'" "px_wg_pending p'" "rg_client_ip resp = ii_ip info"
    using do_register_cases [OF reg] .
  have cfg: "st_config st' = st_config (px_state p)" using new_client_config [of E now i app_id k h r "px_state p"] new by simp
  have ok': "state_ok E st'" using new_client_by_id_ok [OF ok, of now i app_id k h r] new by simp
  then have wf: "bt_wf (ps_instances (st_state st'))" by (simp add: state_ok_def index_ok_def)
  have res: "instance_of st' i = Some info" "ii_public_key info = k" "valid_ip E (px_state p) (ii_ip info)"
    using new_client_result [OF _ new] ok by (simp_all add: state_ok_def)
  have uniq: "j = i" if "instance_of st' j = Some x" "ii_public_key x = k \<or> ii_ip x = ii_ip info" for j x
    using ok' res that valid_ip_config [OF cfg, of E] unfolding state_ok_def addr_ok_def keys_ok_def instance_of_def
    by metis
  have "peer \<in> set (wc_peers (generate_wg_config E st')) \<and> (wp_public_key peer = k \<or> wp_ip peer = ii_ip info) \<longleftrightarrow>
      peer = \<lparr> wp_public_key = k, wp_ip = ii_ip info \<rparr>" for peer
    unfolding generate_wg_config_peers [OF wf] cfg
    using res own uniq register_check_Inr(4) [OF chk] by (auto simp: valid_ip_def is_valid_client_ip_def)
  then show ?thesis using p' res register_check_Inr(1) [OF chk] by simp
qed

definition demo_proxy :: "(cidr, mem_node) ProxyState \<Rightarrow> (cidr, mem_node) Proxy" where
  "demo_proxy st = \<lparr> px_state = st, px_wg_pending = False, px_policy_queue = [], px_my_app_id = [1, 2] \<rparr>"

definition demo_late :: system_time where
  "demo_late = 4000 * 10 ^ 9"

definition demo_renewed :: "(cidr, mem_node) ProxyState" where
  "demo_renewed = set_info ''a'' (demo_info ''a'' (CHR ''Z'') 0x0A000009 0\<lparr> ii_reg_time := demo_late \<rparr>) demo_two"

lemma demo_last_seen:
  "recycle_last_seen demo_gw demo_late demo_kv ''b'' 1000 = 1000 \<and> cfg_recycle_timeout (st_config demo_two) = 3600 * 10 ^ 9 \<and>
    3600 * 10 ^ 9 < elapsed_or_zero demo_late 1000"
  by code_simp

lemma set_info_lookup: "instance_of (set_info i x st) j = (if j = i then Some x else instance_of st j)"
  by (simp add: instance_of_def set_info_def table_simps)

lemma demo_renewed_lookup:
  "instance_of demo_two ''a'' = Some (demo_info ''a'' (CHR ''A'') 0x0A000009 0)"
  "instance_of demo_two ''b'' = Some (demo_info ''b'' (CHR ''B'') 0x0A00000A 1)"
  "instance_of demo_renewed ''a'' = Some (demo_info ''a'' (CHR ''Z'') 0x0A000009 0\<lparr> ii_reg_time := demo_late \<rparr>)"
  "instance_of demo_renewed ''b'' = Some (demo_info ''b'' (CHR ''B'') 0x0A00000A 1)"
  unfolding demo_renewed_def set_info_lookup
  by (simp_all add: instance_of_def demo_two_def default_state_def bt_get_def)


definition demo_register :: "(state_error + RegisterCvmResponse) \<times> (cidr, mem_node) Proxy" where
  "demo_register = do_register_cvm demo_gw 2000 ''app'' ''c'' (demo_key (CHR ''C'')) ''hash'' (reported_from None) (demo_proxy demo_two)"

lemma demo_register_facts:
  "register_check demo_gw ''app'' ''c'' (demo_key (CHR ''C'')) demo_two = Inr ()"
  "map_sum id ii_ip (fst (new_client_by_id demo_gw 2000 ''c'' ''app'' (demo_key (CHR ''C'')) ''hash'' (reported_from None) demo_two)) =
    Inr 0x0A00000B"
  "demo_key (CHR ''C'') \<noteq> wg_public_key (cfg_wg (st_config demo_two))"
  by code_simp+

lemma demo_register_ip: "map_sum id rg_client_ip (fst demo_register) = Inr 0x0A00000B"
  using demo_register_facts(2)
  by (auto simp: demo_register_def do_register_cvm_def demo_proxy_def demo_register_facts(1) on_state_def register_done_def
      register_response_def split: sum.splits)

theorem register_reaches_wireguard_witness:
  "\<lparr> wp_public_key = demo_key (CHR ''C''), wp_ip = 0x0A00000B \<rparr> \<in>
      set (wc_peers (generate_wg_config demo_gw (px_state (snd demo_register)))) \<and>
    px_wg_pending (snd demo_register)"
proof -
  obtain resp where resp: "fst demo_register = Inr resp" "rg_client_ip resp = 0x0A00000B"
    using demo_register_ip by (cases "fst demo_register") auto
  then have reg: "do_register_cvm demo_gw 2000 ''app'' ''c'' (demo_key (CHR ''C'')) ''hash'' (reported_from None)
      (demo_proxy demo_two) = (Inr resp, snd demo_register)"
    by (simp add: demo_register_def prod_eq_iff)
  have "state_ok demo_gw (px_state (demo_proxy demo_two))" using demo_two_ok by (simp add: demo_proxy_def)
  moreover have "demo_key (CHR ''C'') \<noteq> wg_public_key (cfg_wg (st_config (px_state (demo_proxy demo_two))))"
    using demo_register_facts(3) by (simp add: demo_proxy_def)
  ultimately show ?thesis using register_reaches_wireguard [OF _ reg] resp(2) by simp blast
qed

end
