(* ===== verification/Gateway_Policy.thy ===== *)
theory Gateway_Policy
  imports Gateway_Service
begin

text \<open>
  Port policies on the data path (\<^verbatim>\<open>gateway/src/proxy/port_policy.rs\<close>): whether a connection to an
  instance and port is let through, whether it gets a PROXY header, and the background fetch that
  fills in the policy of a CVM that did not report one.  The answer of the agent's \<^verbatim>\<open>Info()\<close> call and
  the JSON readers are arguments; durations are nanoseconds.
\<close>

section \<open>The data path\<close>

datatype DenyReason = PortNotAllowed | PolicyUnknown

definition is_port_allowed ::
  "string \<Rightarrow> 16 word \<Rightarrow> ('net, 's) Proxy \<Rightarrow> (DenyReason + unit) \<times> ('net, 's) Proxy" where
  "is_port_allowed i port p =
    (case instance_port_policy (px_state p) i of
       None \<Rightarrow> if instance_ip (px_state p) i = None then (Inr (), p)
               else (Inl PolicyUnknown, queue_policy_fetch i p)
     | Some policy \<Rightarrow>
        if \<not> pol_restrict_mode policy then (Inr (), p)
        else if bt_contains (pol_ports policy) port then (Inr (), p)
        else (Inl PortNotAllowed, p))"

fun filter_ports :: "16 word \<Rightarrow> AddressGroup \<Rightarrow> ('net, 's) Proxy \<Rightarrow> AddressGroup \<times> ('net, 's) Proxy" where
  "filter_ports port [] p = ([], p)"
| "filter_ports port (a # rest) p =
    (case is_port_allowed (ad_instance_id a) port p of
       (Inr _, p1) \<Rightarrow> (case filter_ports port rest p1 of (allowed, p2) \<Rightarrow> (a # allowed, p2))
     | (Inl _, p1) \<Rightarrow> filter_ports port rest p1)"

datatype filter_error = Nothing_selected string | Port_denied "16 word" string nat

definition filter_allowed_addresses ::
  "kv_error + Handshakes \<Rightarrow> AddressGroup \<Rightarrow> string \<Rightarrow> 16 word \<Rightarrow> ('net, 's) Proxy
    \<Rightarrow> (filter_error + AddressGroup) \<times> ('net, 's) Proxy" where
  "filter_allowed_addresses hs addresses app_id port p =
    (if length addresses = 0 then (Inl (Nothing_selected (describe_empty_selection hs (px_state p) app_id)), p)
     else case filter_ports port addresses p of (allowed, p1) \<Rightarrow>
       if allowed = [] then (Inl (Port_denied port app_id (length addresses)), p1) else (Inr allowed, p1))"

definition should_send_pp :: "string \<Rightarrow> 16 word \<Rightarrow> ('net, 's) Proxy \<Rightarrow> bool" where
  "should_send_pp i port p =
    (case Option.bind (instance_port_policy (px_state p) i) (\<lambda>policy. bt_get (pol_ports policy) port) of
       Some flags \<Rightarrow> pf_pp flags
     | None \<Rightarrow> False)"

section \<open>The fetcher\<close>

datatype FetchError = Transient string | Permanent string

record PortPolicyFetchConfig =
  pc_timeout :: nat
  pc_max_retries :: nat
  pc_backoff_initial :: nat
  pc_backoff_max :: nat

record 'j info_ops =
  io_json :: "string \<Rightarrow> string + 'j"
  io_app_compose :: "'j \<Rightarrow> string option"
  io_compose_policy :: "string \<Rightarrow> string + (16 word \<times> bool) list \<times> bool"

definition parse_info_port_policy :: "'j info_ops \<Rightarrow> string \<Rightarrow> (FetchError + PortPolicy)" where
  "parse_info_port_policy J tcb_info =
    (if tcb_info = [] then Inr \<lparr> pol_ports = [], pol_restrict_mode = False \<rparr>
     else case io_json J tcb_info of
       Inl e \<Rightarrow> Inl (Permanent e)
     | Inr tcb \<Rightarrow>
        (case io_app_compose J tcb of
           None \<Rightarrow> Inl (Permanent ''tcb_info missing app_compose'')
         | Some raw \<Rightarrow>
            (case io_compose_policy J raw of
               Inl e \<Rightarrow> Inl (Permanent e)
             | Inr (ports, restrict) \<Rightarrow>
                Inr \<lparr> pol_ports = bt_of_list (map (\<lambda>(port, pp). (port, \<lparr> pf_pp = pp \<rparr>)) ports),
                      pol_restrict_mode = restrict \<rparr>)))"

text \<open>
  \<open>answer ip port\<close> is what one \<^verbatim>\<open>Info()\<close> call gives: the agent's \<^verbatim>\<open>tcb_info\<close>, or the error of the call.
  \<open>None\<close> stands for an attempt that ran into the timeout.
\<close>

type_synonym info_answer = "ipv4 \<Rightarrow> 16 word \<Rightarrow> (string + string) option"

definition fetch_port_policy :: "'j info_ops \<Rightarrow> string + string \<Rightarrow> (FetchError + PortPolicy)" where
  "fetch_port_policy J answer =
    (case answer of Inl e \<Rightarrow> Inl (Transient e) | Inr tcb_info \<Rightarrow> parse_info_port_policy J tcb_info)"

definition fetch_and_store ::
  "('net, 's) gw_env \<Rightarrow> 'j info_ops \<Rightarrow> info_answer \<Rightarrow> string \<Rightarrow> ('net, 's) ProxyState
    \<Rightarrow> (FetchError + unit) \<times> ('net, 's) ProxyState" where
  "fetch_and_store E J answer i st =
    (case instance_ip st i of
       None \<Rightarrow> (Inl (Permanent ''unknown instance''), st)
     | Some ip \<Rightarrow>
        (case answer ip (cfg_agent_port (st_config st)) of
           None \<Rightarrow> (Inl (Transient ''Info() rpc timed out''), st)
         | Some a \<Rightarrow>
            (case fetch_port_policy J a of
               Inl e \<Rightarrow> (Inl e, st)
             | Inr policy \<Rightarrow> (Inr (), update_instance_port_policy E i policy st))))"

text \<open>
  The retry loop.  \<open>answers n\<close> is the answer to attempt \<open>n\<close>; the result lists the sleeps taken and
  whether a policy was stored.  The loop ends because an attempt past \<^verbatim>\<open>max_retries\<close> is the last one.
\<close>

function fetch_loop ::
  "('net, 's) gw_env \<Rightarrow> 'j info_ops \<Rightarrow> PortPolicyFetchConfig \<Rightarrow> (nat \<Rightarrow> info_answer) \<Rightarrow> string \<Rightarrow> nat \<Rightarrow> nat \<Rightarrow> ('net, 's) ProxyState
    \<Rightarrow> (nat list \<times> bool) \<times> ('net, 's) ProxyState" where
  "fetch_loop E J cfg answers i attempt backoff st =
    (case fetch_and_store E J (answers attempt) i st of
       (Inr _, st1) \<Rightarrow> (([], True), st1)
     | (Inl (Permanent _), st1) \<Rightarrow> (([], False), st1)
     | (Inl (Transient _), st1) \<Rightarrow>
        if pc_max_retries cfg \<le> attempt then (([], False), st1)
        else (case fetch_loop E J cfg answers i (Suc attempt) (min (backoff * 2) (pc_backoff_max cfg)) st1 of
                ((sleeps, ok), st2) \<Rightarrow> ((backoff # sleeps, ok), st2)))"
  by pat_completeness auto
termination
  by (relation "measure (\<lambda>(E, J, cfg, answers, i, attempt, backoff, st). pc_max_retries cfg - attempt)") auto

definition fetch_with_retry ::
  "('net, 's) gw_env \<Rightarrow> 'j info_ops \<Rightarrow> PortPolicyFetchConfig \<Rightarrow> (nat \<Rightarrow> info_answer) \<Rightarrow> string \<Rightarrow> ('net, 's) ProxyState
    \<Rightarrow> (nat list \<times> bool) \<times> ('net, 's) ProxyState" where
  "fetch_with_retry E J cfg answers i st = fetch_loop E J cfg answers i 0 (pc_backoff_initial cfg) st"

text \<open>The worker's queue: an instance already being fetched is skipped, and leaves the set when its fetch ends.\<close>

definition fetcher_take :: "string set \<Rightarrow> ('net, 's) Proxy \<Rightarrow> (string option \<times> string set) \<times> ('net, 's) Proxy" where
  "fetcher_take in_flight p =
    (case px_policy_queue p of
       [] \<Rightarrow> ((None, in_flight), p)
     | i # rest \<Rightarrow>
        (let p1 = p\<lparr> px_policy_queue := rest \<rparr>
         in if i \<in> in_flight then ((None, in_flight), p1) else ((Some i, insert i in_flight), p1)))"

definition fetcher_done :: "string \<Rightarrow> string set \<Rightarrow> string set" where
  "fetcher_done i in_flight = in_flight - {i}"

section \<open>What the filter lets through\<close>

text \<open>
  The decision the data path is meant to take: an unregistered id (the local shortcut) is not subject
  to any policy; a registered one needs a known policy, the operator's before its own, that is open or
  lists the port.
\<close>

definition permitted :: "('net, 's) ProxyState \<Rightarrow> string \<Rightarrow> 16 word \<Rightarrow> bool" where
  "permitted st i port =
    (case instance_of st i of
       None \<Rightarrow> True
     | Some info \<Rightarrow>
        (case effective \<lparr> instance_reported = ii_port_policy info, admin_override = ii_admin_port_policy info \<rparr> of
           None \<Rightarrow> False
         | Some policy \<Rightarrow> \<not> pol_restrict_mode policy \<or> port \<in> set (bt_keys (pol_ports policy))))"

definition policy_unknown :: "('net, 's) ProxyState \<Rightarrow> string \<Rightarrow> bool" where
  "policy_unknown st i = (case instance_of st i of
     None \<Rightarrow> False
   | Some info \<Rightarrow> ii_port_policy info = None \<and> ii_admin_port_policy info = None)"

lemma is_port_allowed_eq:
  "is_port_allowed i port p =
    (if permitted (px_state p) i port then Inr () else Inl (if policy_unknown (px_state p) i then PolicyUnknown else PortNotAllowed),
     if policy_unknown (px_state p) i then queue_policy_fetch i p else p)"
  by (auto simp: is_port_allowed_def permitted_def policy_unknown_def instance_port_policy_def instance_ip_def effective_def
      bt_contains_def bt_get_None_iff bt_keys_def split: option.split)

definition queue_all :: "string list \<Rightarrow> ('net, 's) Proxy \<Rightarrow> ('net, 's) Proxy" where
  "queue_all is p = p\<lparr> px_policy_queue := px_policy_queue p @ is \<rparr>"

lemma filter_ports_eq:
  "filter_ports port as p =
    (filter (\<lambda>a. permitted (px_state p) (ad_instance_id a) port) as,
     queue_all (filter (policy_unknown (px_state p)) (map ad_instance_id as)) p)"
  by (induction as arbitrary: p)
    (auto simp: is_port_allowed_eq queue_all_def queue_policy_fetch_def)

text \<open>
  C4. The port filter fails closed.  It lets through exactly the candidates whose effective policy is
  known and permits the port, and an error instead of an empty list; an instance whose policy is not
  known is denied and queued for the fetcher, once for each time it was tried, and nothing else of the
  gateway changes.
\<close>

theorem port_filter_fails_closed:
  "let ok = filter (\<lambda>a. permitted (px_state p) (ad_instance_id a) port) addresses
   in fst (filter_allowed_addresses hs addresses app_id port p) =
       (if addresses = [] then Inl (Nothing_selected (describe_empty_selection hs (px_state p) app_id))
        else if ok = [] then Inl (Port_denied port app_id (length addresses)) else Inr ok) \<and>
     snd (filter_allowed_addresses hs addresses app_id port p) =
       queue_all (filter (policy_unknown (px_state p)) (map ad_instance_id addresses)) p"
  by (simp add: filter_allowed_addresses_def filter_ports_eq Let_def queue_all_def)

section \<open>The retry loop\<close>

definition nth_backoff :: "PortPolicyFetchConfig \<Rightarrow> nat \<Rightarrow> nat \<Rightarrow> nat" where
  "nth_backoff cfg backoff n = (if n = 0 then backoff else min (backoff * 2 ^ n) (pc_backoff_max cfg))"

lemma nth_backoff_Suc:
  "nth_backoff cfg backoff (Suc n) = nth_backoff cfg (min (backoff * 2) (pc_backoff_max cfg)) n"
proof (cases n)
  case (Suc m)
  have "pc_backoff_max cfg * 1 \<le> pc_backoff_max cfg * 2 ^ n" by (intro mult_le_mono2) simp
  then have "min (backoff * 2 * 2 ^ n) (pc_backoff_max cfg) = min (min (backoff * 2) (pc_backoff_max cfg) * 2 ^ n) (pc_backoff_max cfg)"
    by (simp only: nat_mult_min_left min.assoc mult_1_right min_absorb2)
  then show ?thesis using Suc by (simp add: nth_backoff_def mult.assoc)
qed (simp add: nth_backoff_def)

declare fetch_loop.simps [simp del]

definition retries :: "PortPolicyFetchConfig \<Rightarrow> nat \<Rightarrow> (FetchError + unit) \<Rightarrow> bool" where
  "retries cfg attempt r = (attempt < pc_max_retries cfg \<and> (\<exists>e. r = Inl (Transient e)))"

lemma fetch_loop_last:
  assumes "\<not> retries cfg attempt (fst (fetch_and_store E J (answers attempt) i st))"
  shows "fetch_loop E J cfg answers i attempt backoff st =
    (([], \<not> isl (fst (fetch_and_store E J (answers attempt) i st))), snd (fetch_and_store E J (answers attempt) i st))"
  using assms
  by (cases "fetch_and_store E J (answers attempt) i st"; cases "fst (fetch_and_store E J (answers attempt) i st)")
    (auto simp: retries_def fetch_loop.simps [of E J cfg answers i attempt] split: FetchError.split)

lemma fetch_and_store_failed: "fetch_and_store E J answer i st = (Inl e, st') \<Longrightarrow> st' = st"
  by (auto simp: fetch_and_store_def split: option.splits sum.splits)

lemma fetch_loop_next:
  assumes "retries cfg attempt (fst (fetch_and_store E J (answers attempt) i st))"
    and rest: "rest = fetch_loop E J cfg answers i (Suc attempt) (min (backoff * 2) (pc_backoff_max cfg)) st"
  shows "fetch_loop E J cfg answers i attempt backoff st = ((backoff # fst (fst rest), snd (fst rest)), snd rest)"
  using assms(1) fetch_and_store_failed [of E J "answers attempt" i st]
  by (cases "fetch_and_store E J (answers attempt) i st")
    (auto simp: retries_def rest fetch_loop.simps [of E J cfg answers i attempt] split: prod.split)

lemma fetch_loop_sleeps:
  "attempt \<le> pc_max_retries cfg \<Longrightarrow>
    fst (fst (fetch_loop E J cfg answers i attempt backoff st)) =
      map (nth_backoff cfg backoff) [0..<length (fst (fst (fetch_loop E J cfg answers i attempt backoff st)))] \<and>
    attempt + length (fst (fst (fetch_loop E J cfg answers i attempt backoff st))) \<le> pc_max_retries cfg"
proof (induction "pc_max_retries cfg - attempt" arbitrary: attempt backoff)
  case 0
  then show ?case by (simp add: fetch_loop_last retries_def)
next
  case (Suc k)
  show ?case
  proof (cases "retries cfg attempt (fst (fetch_and_store E J (answers attempt) i st))")
    case False
    then show ?thesis using Suc.prems by (simp add: fetch_loop_last)
  next
    case True
    define rest where "rest = fetch_loop E J cfg answers i (Suc attempt) (min (backoff * 2) (pc_backoff_max cfg)) st"
    have "k = pc_max_retries cfg - Suc attempt" "Suc attempt \<le> pc_max_retries cfg" using Suc.hyps(2) by simp_all
    then show ?thesis
      using Suc.hyps(1) [of "Suc attempt" "min (backoff * 2) (pc_backoff_max cfg)", folded rest_def]
      by (simp add: fetch_loop_next [OF True rest_def] map_upt_Suc nth_backoff_Suc nth_backoff_def [of _ _ 0] del: upt_Suc)
  qed
qed

lemma fetch_and_store_stored:
  assumes "fetch_and_store E J answer i st = (Inr (), st')"
  obtains ip tcb policy where "instance_ip st i = Some ip" "answer ip (cfg_agent_port (st_config st)) = Some (Inr tcb)"
    "parse_info_port_policy J tcb = Inr policy" "st' = update_instance_port_policy E i policy st"
  using assms by (auto simp: fetch_and_store_def fetch_port_policy_def split: option.splits sum.splits)

lemma update_policy_lookup:
  "instance_of (update_instance_port_policy E i policy st) j =
    (if j = i then map_option (\<lambda>info. info\<lparr> ii_port_policy := Some policy \<rparr>) (instance_of st i) else instance_of st j)"
proof (cases "instance_of st i")
  case (Some info)
  then show ?thesis
    by (simp add: update_instance_port_policy_def instance_of_def [of "snd _"]) (simp flip: instance_of_def add: set_info_lookup)
qed (simp add: update_instance_port_policy_def)

lemma fetch_loop_state:
  "snd (fetch_loop E J cfg answers i attempt backoff st) =
    (if snd (fst (fetch_loop E J cfg answers i attempt backoff st))
     then snd (fetch_and_store E J (answers (attempt + length (fst (fst (fetch_loop E J cfg answers i attempt backoff st))))) i st)
     else st) \<and>
   (snd (fst (fetch_loop E J cfg answers i attempt backoff st)) \<longrightarrow>
     fst (fetch_and_store E J (answers (attempt + length (fst (fst (fetch_loop E J cfg answers i attempt backoff st))))) i st) = Inr ())"
proof (induction "pc_max_retries cfg - attempt" arbitrary: attempt backoff)
  case 0
  then show ?case
    using fetch_and_store_failed [of E J "answers attempt" i st]
    by (cases "fetch_and_store E J (answers attempt) i st"; cases "fst (fetch_and_store E J (answers attempt) i st)")
      (auto simp: fetch_loop_last retries_def)
next
  case (Suc k)
  show ?case
  proof (cases "retries cfg attempt (fst (fetch_and_store E J (answers attempt) i st))")
    case False
    then show ?thesis
      using fetch_and_store_failed [of E J "answers attempt" i st]
      by (cases "fetch_and_store E J (answers attempt) i st"; cases "fst (fetch_and_store E J (answers attempt) i st)")
        (auto simp: fetch_loop_last)
  next
    case True
    define rest where "rest = fetch_loop E J cfg answers i (Suc attempt) (min (backoff * 2) (pc_backoff_max cfg)) st"
    have "k = pc_max_retries cfg - Suc attempt" using Suc.hyps(2) by simp
    then show ?thesis
      using Suc.hyps(1) [of "Suc attempt" "min (backoff * 2) (pc_backoff_max cfg)", folded rest_def]
      by (simp add: fetch_loop_next [OF True rest_def])
  qed
qed

text \<open>
  C31. The fetch always ends.  It makes at most \<^verbatim>\<open>max_retries + 1\<close> attempts; the pauses between them are
  the initial backoff doubled each time and, from the second on, never above the configured maximum.
  It changes the state only when the last attempt answered with a policy, and then only the reported
  policy of that one instance.
\<close>

theorem fetch_with_retry_bounded:
  "let r = fetch_with_retry E J cfg answers i st; n = length (fst (fst r)); st' = snd r
   in n \<le> pc_max_retries cfg \<and>
     fst (fst r) = map (\<lambda>k. if k = 0 then pc_backoff_initial cfg else min (pc_backoff_initial cfg * 2 ^ k) (pc_backoff_max cfg)) [0..<n] \<and>
     (if snd (fst r)
      then \<exists>ip tcb policy. instance_ip st i = Some ip \<and> answers n ip (cfg_agent_port (st_config st)) = Some (Inr tcb) \<and>
        parse_info_port_policy J tcb = Inr policy \<and>
        (\<forall>j. instance_of st' j =
          (if j = i then map_option (\<lambda>info. info\<lparr> ii_port_policy := Some policy \<rparr>) (instance_of st i) else instance_of st j))
      else st' = st)"
proof -
  define r where "r = fetch_loop E J cfg answers i 0 (pc_backoff_initial cfg) st"
  define n where "n = length (fst (fst r))"
  note sl = fetch_loop_sleeps [of 0 cfg E J answers i "pc_backoff_initial cfg" st, folded r_def, folded n_def]
  note st = fetch_loop_state [of E J cfg answers i 0 "pc_backoff_initial cfg" st, folded r_def, folded n_def]
  have "\<exists>ip tcb policy. instance_ip st i = Some ip \<and> answers n ip (cfg_agent_port (st_config st)) = Some (Inr tcb) \<and>
        parse_info_port_policy J tcb = Inr policy \<and> (\<forall>j. instance_of (snd r) j =
          (if j = i then map_option (\<lambda>info. info\<lparr> ii_port_policy := Some policy \<rparr>) (instance_of st i) else instance_of st j))"
    if "snd (fst r)"
  proof -
    have f: "fetch_and_store E J (answers n) i st = (Inr (), snd r)" using st that by (simp add: prod_eq_iff)
    show ?thesis by (rule fetch_and_store_stored [OF f]) (auto simp: update_policy_lookup)
  qed
  then show ?thesis
    using sl st unfolding fetch_with_retry_def Let_def r_def [symmetric] n_def [symmetric] nth_backoff_def
    by (simp del: upt_Suc)
qed

section \<open>An upgrade during a fetch\<close>

lemma reregister_policy:
  assumes "rc_port_policy r = None" "ii_port_policy_hash old \<noteq> h"
  shows "ii_port_policy (snd (reregister now k h r old)) = None" "ii_port_policy_hash (snd (reregister now k h r old)) = h"
  using assms by (simp_all add: reregister_def Let_def set_health_check_def reset_health_def)


definition demo_upgrade :: "(state_error + InstanceInfo) \<times> (cidr, mem_node) ProxyState" where
  "demo_upgrade = new_client_by_id demo_gw 2000 ''a'' ''app'' (demo_key (CHR ''A'')) ''hash2'' (reported_from None) demo_two"

lemma demo_upgrade_ok: "\<not> isl (fst demo_upgrade) \<and> valid_ip demo_gw demo_two 0x0A000009"
  by code_simp


end
