(* ===== verification/Gateway_Sni.thy ===== *)
theory Gateway_Sni
  imports Dstack_Prelude
begin

text \<open>
  The bytes a client sends before anything is proxied: the PROXY-protocol header of an upstream load
  balancer (\<^verbatim>\<open>gateway/src/pp.rs\<close>) and the server name in a TLS ClientHello (\<^verbatim>\<open>gateway/src/proxy/sni.rs\<close>,
  \<^verbatim>\<open>take_sni\<close> of \<^verbatim>\<open>gateway/src/proxy.rs\<close>).  The byte-parser primitives (crate \<^verbatim>\<open>parcelona\<close>) and the checks of
  a name's encoding are arguments; \<open>parcel_spec\<close> is the documented behaviour of the primitives.
\<close>

section \<open>The ClientHello parser\<close>

record parcel =
  take_len_be_u8 :: "bytes \<Rightarrow> (bytes \<times> nat) option"
  take_len_be_u16 :: "bytes \<Rightarrow> (bytes \<times> nat) option"
  take_len_be_u24 :: "bytes \<Rightarrow> (bytes \<times> nat) option"
  take_record :: "bytes \<Rightarrow> nat \<Rightarrow> (bytes \<times> bytes) option"
  take_record_be_u16 :: "bytes \<Rightarrow> (bytes \<times> bytes) option"

definition take_be :: "nat \<Rightarrow> bytes \<Rightarrow> (bytes \<times> nat) option" where
  "take_be n b = (if length b < n then None else Some (drop n b, be_nat (take n b)))"

definition take_exact :: "bytes \<Rightarrow> nat \<Rightarrow> (bytes \<times> bytes) option" where
  "take_exact b n = (if length b < n then None else Some (drop n b, take n b))"

definition parcel_spec :: "parcel \<Rightarrow> bool" where
  "parcel_spec P = (take_len_be_u8 P = take_be 1 \<and> take_len_be_u16 P = take_be 2 \<and> take_len_be_u24 P = take_be 3 \<and>
    take_record P = take_exact \<and>
    take_record_be_u16 P = (\<lambda>b. Option.bind (take_be 2 b) (\<lambda>(b1, n). take_exact b1 n)))"

definition take_record_u8_len :: "parcel \<Rightarrow> bytes \<Rightarrow> (bytes \<times> bytes) option" where
  "take_record_u8_len P b = Option.bind (take_len_be_u8 P b) (\<lambda>(b1, n). take_record P b1 n)"

definition CONTENT_TYPE_HANDSHAKE :: byte where "CONTENT_TYPE_HANDSHAKE = 0x16"
definition HANDSHAKE_TYPE_CLIENT_HELLO :: nat where "HANDSHAKE_TYPE_CLIENT_HELLO = 1"
definition EXTENSION_TYPE_SNI :: nat where "EXTENSION_TYPE_SNI = 0"
definition NAME_TYPE_HOST_NAME :: nat where "NAME_TYPE_HOST_NAME = 0"

text \<open>
  The two loops.  \<open>None\<close> is a loop that does not return; \<open>Some None\<close> an error, \<open>Some (Some (b, name))\<close> the
  name and what follows it.
\<close>

partial_function (option) name_loop :: "parcel \<Rightarrow> bytes \<Rightarrow> (bytes \<times> bytes) option option" where
  "name_loop P b =
    (case take_len_be_u8 P b of None \<Rightarrow> Some None | Some (b1, name_type) \<Rightarrow>
     (case take_len_be_u16 P b1 of None \<Rightarrow> Some None | Some (b2, name_leng) \<Rightarrow>
      (case take_record P b2 name_leng of None \<Rightarrow> Some None | Some (b3, sni) \<Rightarrow>
         if name_type \<noteq> NAME_TYPE_HOST_NAME then name_loop P b3 else Some (Some (b3, sni)))))"

partial_function (option) ext_loop :: "parcel \<Rightarrow> bytes \<Rightarrow> (bytes \<times> bytes) option option" where
  "ext_loop P b =
    (case take_len_be_u16 P b of None \<Rightarrow> Some None | Some (b1, ext_type) \<Rightarrow>
     (case take_len_be_u16 P b1 of None \<Rightarrow> Some None | Some (b2, ext_leng) \<Rightarrow>
        if ext_type \<noteq> EXTENSION_TYPE_SNI
        then (if 0 < ext_leng
              then (case take_record P b2 ext_leng of None \<Rightarrow> Some None | Some (b3, _) \<Rightarrow> ext_loop P b3)
              else ext_loop P b2)
        else (case take_len_be_u16 P b2 of None \<Rightarrow> Some None | Some (b3, _) \<Rightarrow> name_loop P b3)))"

text \<open>The fixed part up to the extensions.\<close>

definition hello_extensions :: "parcel \<Rightarrow> bytes \<Rightarrow> bytes option" where
  "hello_extensions P b =
    Option.bind (take_len_be_u8 P b) (\<lambda>(b1, c).
      if c \<noteq> HANDSHAKE_TYPE_CLIENT_HELLO then None
      else Option.bind (take_len_be_u24 P b1) (\<lambda>(b2, _).
        Option.bind (take_record P b2 34) (\<lambda>(b3, _).
        Option.bind (take_record_u8_len P b3) (\<lambda>(b4, _).
        Option.bind (take_record_be_u16 P b4) (\<lambda>(b5, _).
        Option.bind (take_record_u8_len P b5) (\<lambda>(b6, _).
          map_option fst (take_len_be_u16 P b6)))))))"

definition extract_sni_inner :: "parcel \<Rightarrow> bytes \<Rightarrow> (nat \<times> bytes) option option" where
  "extract_sni_inner P b =
    (if length b < 10 then Some None
     else if b ! 0 \<noteq> CONTENT_TYPE_HANDSHAKE then Some None
     else case hello_extensions P (drop 5 b) of
            None \<Rightarrow> Some None
          | Some exts \<Rightarrow> map_option (map_option (\<lambda>(rest, sni). (length b - length rest, sni))) (ext_loop P exts))"

definition extract_sni :: "parcel \<Rightarrow> bytes \<Rightarrow> bytes option option" where
  "extract_sni P b = map_option (map_option snd) (extract_sni_inner P b)"

section \<open>Reading until the name is there\<close>

definition MAX_CLIENT_HELLO_BYTES :: nat where "MAX_CLIENT_HELLO_BYTES = 5 + 2 ^ 14"

datatype sni_error = Hello_too_long | Read_failed string | Sni_not_utf8 | Sni_not_dns nat

record name_ops =
  from_utf8 :: "bytes \<Rightarrow> string option"
  is_dns_name :: "string \<Rightarrow> bool"

definition grow_buffer :: "nat \<Rightarrow> nat \<Rightarrow> nat option" where
  "grow_buffer data_len cap =
    (if data_len = cap then (if MAX_CLIENT_HELLO_BYTES \<le> cap then None else Some (min (cap * 2) MAX_CLIENT_HELLO_BYTES))
     else Some cap)"

definition check_name :: "name_ops \<Rightarrow> bytes \<Rightarrow> (sni_error + string)" where
  "check_name N sni =
    (case from_utf8 N sni of
       None \<Rightarrow> Inl Sni_not_utf8
     | Some s \<Rightarrow> if \<not> is_dns_name N s then Inl (Sni_not_dns (length sni)) else Inr s)"

text \<open>
  \<open>reads\<close> says how the stream arrives: for each read an error, or how many bytes are available; a read
  returns no more than fits in the buffer, and nothing at the end of the stream.
\<close>

datatype sni_progress = Sni_done "sni_error + string option \<times> bytes" | Sni_more

definition sni_received :: "parcel \<Rightarrow> name_ops \<Rightarrow> bytes \<Rightarrow> sni_progress option" where
  "sni_received P N data =
    (case extract_sni P data of
       None \<Rightarrow> None
     | Some None \<Rightarrow> Some Sni_more
     | Some (Some sni) \<Rightarrow>
        (case check_name N sni of
           Inl e \<Rightarrow> Some (Sni_done (Inl e))
         | Inr s \<Rightarrow> Some (Sni_done (Inr (Some s, data)))))"

primrec take_sni_loop ::
  "parcel \<Rightarrow> name_ops \<Rightarrow> (string + nat) list \<Rightarrow> bytes \<Rightarrow> nat \<Rightarrow> bytes \<Rightarrow> (sni_error + string option \<times> bytes) option" where
  "take_sni_loop P N [] stream cap data =
    (if grow_buffer (length data) cap = None then Some (Inl Hello_too_long) else Some (Inr (None, data)))"
| "take_sni_loop P N (r # rest) stream cap data =
    (case grow_buffer (length data) cap of
       None \<Rightarrow> Some (Inl Hello_too_long)
     | Some cap1 \<Rightarrow>
        (case r of
           Inl e \<Rightarrow> Some (Inl (Read_failed e))
         | Inr n \<Rightarrow>
            (let got = take (min n (cap1 - length data)) stream
             in if got = [] then Some (Inr (None, data))
                else (case sni_received P N (data @ got) of
                        None \<Rightarrow> None
                      | Some (Sni_done out) \<Rightarrow> Some out
                      | Some Sni_more \<Rightarrow> take_sni_loop P N rest (drop (length got) stream) cap1 (data @ got)))))"

definition take_sni :: "parcel \<Rightarrow> name_ops \<Rightarrow> (string + nat) list \<Rightarrow> bytes \<Rightarrow> (sni_error + string option \<times> bytes) option" where
  "take_sni P N reads stream = take_sni_loop P N reads stream 4096 []"

section \<open>The parser against a reference\<close>

text \<open>
  Reference readers over the layout of the message: a list of names, a list of extensions.  Each reads a
  fixed-size header and a body, so they end with the input.
\<close>

function read_names :: "bytes \<Rightarrow> bytes option" where
  "read_names b =
    (if length b < 3 then None
     else let n = be_nat (take 2 (drop 1 b)); body = drop 3 b
          in if length body < n then None
             else if be_nat (take 1 b) = 0 then Some (take n body) else read_names (drop n body))"
  by pat_completeness auto
termination by (relation "measure length") auto

function read_exts :: "bytes \<Rightarrow> bytes option" where
  "read_exts b =
    (if length b < 4 then None
     else let n = be_nat (take 2 (drop 2 b)); body = drop 4 b
          in if be_nat (take 2 b) \<noteq> 0 then (if length body < n then None else read_exts (drop n body))
             else if length body < 2 then None else read_names (drop 2 body))"
  by pat_completeness auto
termination by (relation "measure length") auto

declare read_names.simps [simp del] read_exts.simps [simp del]

lemma parcel_specD:
  assumes "parcel_spec P"
  shows "take_len_be_u8 P = take_be 1" "take_len_be_u16 P = take_be 2" "take_len_be_u24 P = take_be 3"
    "take_record P = take_exact" "take_record_be_u16 P = (\<lambda>b. Option.bind (take_be 2 b) (\<lambda>(b1, n). take_exact b1 n))"
  using assms by (simp_all add: parcel_spec_def)

lemma name_loop_reads:
  assumes "parcel_spec P"
  shows "\<exists>r. name_loop P b = Some r \<and> map_option snd r = read_names b"
proof (induction b rule: read_names.induct)
  case (1 b)
  let ?n = "be_nat (take 2 (drop 1 b))"
  show ?case
  proof (cases "length b < 3 \<or> length (drop 3 b) < ?n")
    case True
    then show ?thesis
      by (subst name_loop.simps, subst read_names.simps)
        (auto simp: parcel_specD [OF assms] take_be_def take_exact_def Let_def)
  next
    case False
    then show ?thesis
      using 1 [OF _ refl refl]
      by (subst name_loop.simps, subst read_names.simps)
        (auto simp: parcel_specD [OF assms] take_be_def take_exact_def Let_def NAME_TYPE_HOST_NAME_def)
  qed
qed

lemma ext_loop_reads:
  assumes "parcel_spec P"
  shows "\<exists>r. ext_loop P b = Some r \<and> map_option snd r = read_exts b"
proof (induction b rule: read_exts.induct)
  case (1 b)
  let ?n = "be_nat (take 2 (drop 2 b))"
  show ?case
  proof (cases "length b < 4")
    case True
    then show ?thesis
      by (subst ext_loop.simps, subst read_exts.simps)
        (auto simp: parcel_specD [OF assms] take_be_def take_exact_def Let_def EXTENSION_TYPE_SNI_def)
  next
    case False
    then show ?thesis
      using 1 [OF _ refl refl] name_loop_reads [OF assms, of "drop 6 b"]
      by (subst ext_loop.simps, subst read_exts.simps)
        (auto simp: parcel_specD [OF assms] take_be_def take_exact_def Let_def EXTENSION_TYPE_SNI_def)
  qed
qed

subsection \<open>More input does not change the answer\<close>

lemma take_be_append: "take_be n b = Some (b1, c) \<Longrightarrow> take_be n (b @ x) = Some (b1 @ x, c)"
  by (auto simp: take_be_def split: if_splits)

lemma take_exact_append: "take_exact b n = Some (b1, r) \<Longrightarrow> take_exact (b @ x) n = Some (b1 @ x, r)"
  by (auto simp: take_exact_def split: if_splits)

lemma read_names_append: "read_names b = Some s \<Longrightarrow> read_names (b @ x) = Some s"
proof (induction b rule: read_names.induct)
  case (1 b)
  define n where "n = be_nat (take 2 (drop 1 b))"
  have b: "3 \<le> length b" "n \<le> length (drop 3 b)"
    "if be_nat (take 1 b) = 0 then s = take n (drop 3 b) else read_names (drop n (drop 3 b)) = Some s"
    using 1(2) by (simp_all add: read_names.simps [of b] Let_def n_def split: if_splits)
  have "be_nat (take 1 b) \<noteq> 0 \<Longrightarrow> read_names (drop n (drop 3 b) @ x) = Some s"
    using 1(1) [OF _ refl refl] b unfolding n_def by auto
  then show ?case
    using b by (simp add: read_names.simps [of "b @ x"] Let_def n_def split: if_splits)
qed

lemma read_exts_append: "read_exts b = Some s \<Longrightarrow> read_exts (b @ x) = Some s"
proof (induction b rule: read_exts.induct)
  case (1 b)
  define n where "n = be_nat (take 2 (drop 2 b))"
  have b: "4 \<le> length b"
    "if be_nat (take 2 b) \<noteq> 0 then n \<le> length (drop 4 b) \<and> read_exts (drop n (drop 4 b)) = Some s
     else 2 \<le> length (drop 4 b) \<and> read_names (drop 2 (drop 4 b)) = Some s"
    using 1(2) by (simp_all add: read_exts.simps [of b] Let_def n_def split: if_splits)
  have "be_nat (take 2 b) \<noteq> 0 \<Longrightarrow> read_exts (drop n (drop 4 b) @ x) = Some s"
    using 1(1) [OF _ refl refl] b unfolding n_def by auto
  moreover have "be_nat (take 2 b) = 0 \<Longrightarrow> read_names (drop 2 (drop 4 b) @ x) = Some s"
    using b(2) read_names_append by simp
  ultimately show ?case
    using b by (auto simp: read_exts.simps [of "b @ x"] Let_def n_def split: if_splits)
qed

lemma hello_extensions_append:
  assumes "parcel_spec P" "hello_extensions P b = Some e"
  shows "hello_extensions P (b @ x) = Some (e @ x)"
proof -
  obtain b1 b2 b3 b4 b5 b6 b7 b8 b9 c n1 n2 n3 d r1 r2 r3 r4 where
    "take_be 1 b = Some (b1, HANDSHAKE_TYPE_CLIENT_HELLO)" "take_be 3 b1 = Some (b2, c)" "take_exact b2 34 = Some (b3, r1)"
    "take_be 1 b3 = Some (b4, n1)" "take_exact b4 n1 = Some (b5, r2)" "take_be 2 b5 = Some (b6, n2)"
    "take_exact b6 n2 = Some (b7, r3)" "take_be 1 b7 = Some (b8, n3)" "take_exact b8 n3 = Some (b9, r4)" "take_be 2 b9 = Some (e, d)"
    using assms(2)
    by (auto simp: hello_extensions_def take_record_u8_len_def parcel_specD [OF assms(1)] bind_eq_Some_conv split: if_splits)
  then show ?thesis
    by (simp add: hello_extensions_def take_record_u8_len_def parcel_specD [OF assms(1)] take_be_append take_exact_append)
qed

definition sni_of :: "parcel \<Rightarrow> bytes \<Rightarrow> bytes option" where
  "sni_of P b = (if length b < 10 \<or> b ! 0 \<noteq> CONTENT_TYPE_HANDSHAKE then None
    else Option.bind (hello_extensions P (drop 5 b)) read_exts)"

lemma extract_sni_eq:
  assumes "parcel_spec P"
  shows "extract_sni P b = Some (sni_of P b)"
proof (cases "hello_extensions P (drop 5 b)")
  case (Some e)
  obtain r where "ext_loop P e = Some r" "map_option snd r = read_exts e"
    using ext_loop_reads [OF assms] by blast
  then show ?thesis
    using Some by (cases r) (auto simp: extract_sni_def extract_sni_inner_def sni_of_def)
qed (auto simp: extract_sni_def extract_sni_inner_def sni_of_def)

lemma sni_of_append:
  assumes "parcel_spec P" "sni_of P b = Some s"
  shows "sni_of P (b @ x) = Some s"
  using assms(2) hello_extensions_append [OF assms(1), of "drop 5 b"] read_exts_append
  by (auto simp: sni_of_def nth_append bind_eq_Some_conv split: if_splits)

section \<open>Properties of the sniffer\<close>

lemma grow_buffer_Some:
  assumes "grow_buffer n cap = Some cap1" "n \<le> cap" "0 < cap" "cap \<le> MAX_CLIENT_HELLO_BYTES"
  shows "n < cap1" "cap1 \<le> MAX_CLIENT_HELLO_BYTES"
  using assms by (auto simp: grow_buffer_def split: if_splits)

lemma sni_received_eq:
  assumes "parcel_spec P"
  shows "sni_received P N data = Some (case sni_of P data of
      None \<Rightarrow> Sni_more
    | Some sni \<Rightarrow> Sni_done (case check_name N sni of Inl e \<Rightarrow> Inl e | Inr s \<Rightarrow> Inr (Some s, data)))"
  by (auto simp: sni_received_def extract_sni_eq [OF assms] split: option.split sum.split)

lemma take_sni_loop_result:
  assumes "parcel_spec P" "length data \<le> cap" "0 < cap" "cap \<le> MAX_CLIENT_HELLO_BYTES"
  shows "case take_sni_loop P N reads stream cap data of
      None \<Rightarrow> False
    | Some (Inl _) \<Rightarrow> True
    | Some (Inr (name, d)) \<Rightarrow> (\<exists>rest. d @ rest = data @ stream) \<and> length d \<le> MAX_CLIENT_HELLO_BYTES \<and>
        (case name of None \<Rightarrow> True | Some s \<Rightarrow> \<exists>sni. sni_of P d = Some sni \<and> check_name N sni = Inr s)"
  using assms(2-4)
proof (induction reads arbitrary: stream cap data)
  case Nil
  then show ?case by auto
next
  case (Cons r rest)
  show ?case
  proof (cases "grow_buffer (length data) cap")
    case None
    then show ?thesis by simp
  next
    case (Some cap1)
    note g = grow_buffer_Some [OF Some Cons.prems]
    show ?thesis
    proof (cases r)
      case (Inl e)
      then show ?thesis using Some by simp
    next
      case (Inr n)
      define got where "got = take (min n (cap1 - length data)) stream"
      have got: "length (data @ got) \<le> cap1" "got @ drop (length got) stream = stream"
        using g(1) by (auto simp: got_def min_def)
      show ?thesis
      proof (cases "got = [] \<or> (\<exists>sni. sni_of P (data @ got) = Some sni)")
        case True
        then show ?thesis
          using Some Inr g Cons.prems got
          by (auto simp: got_def [symmetric] sni_received_eq [OF assms(1)] Let_def split: sum.split)
      next
        case False
        have eq: "(data @ got) @ drop (length got) stream = data @ stream" using got(2) by simp
        show ?thesis
          using False Some Inr g got Cons.IH [OF got(1), of "drop (length got) stream", unfolded eq]
          by (auto simp: got_def [symmetric] sni_received_eq [OF assms(1)] Let_def)
      qed
    qed
  qed
qed

lemma prefix_sni:
  assumes "parcel_spec P" "sni_of P d1 = Some s1" "sni_of P d2 = Some s2" "d1 @ r1 = d2 @ r2"
  shows "s1 = s2"
proof -
  have "(\<exists>x. d2 = d1 @ x) \<or> (\<exists>x. d1 = d2 @ x)" using assms(4) by (auto simp: append_eq_append_conv2)
  then show ?thesis using sni_of_append [OF assms(1)] assms(2,3) by fastforce
qed

text \<open>
  C10. The ClientHello parser always returns, on any bytes, and agrees with a reference reading of the
  message layout; once it has found the name, bytes that arrive later do not change it.
\<close>

theorem extract_sni_total:
  assumes "parcel_spec P"
  shows "\<exists>r. extract_sni P b = Some r \<and>
    r = (if length b < 10 \<or> b ! 0 \<noteq> CONTENT_TYPE_HANDSHAKE then None else Option.bind (hello_extensions P (drop 5 b)) read_exts) \<and>
    (r = None \<or> extract_sni P (b @ later) = Some r)"
  using extract_sni_eq [OF assms] sni_of_append [OF assms, of b _ later]
  by (cases "sni_of P b") (simp_all add: sni_of_def [symmetric])


section \<open>A well-formed ClientHello\<close>

record client_hello =
  ch_record_header :: bytes
  ch_version_random :: bytes
  ch_session_id :: bytes
  ch_cipher_suites :: bytes
  ch_compression :: bytes
  ch_extensions :: "(nat \<times> bytes) list"

definition vec8 :: "bytes \<Rightarrow> bytes" where
  "vec8 b = of_nat (length b) # b"

definition vec16 :: "bytes \<Rightarrow> bytes" where
  "vec16 b = nat_be 2 (length b) @ b"

definition enc_ext :: "nat \<times> bytes \<Rightarrow> bytes" where
  "enc_ext e = nat_be 2 (fst e) @ vec16 (snd e)"

definition sni_ext :: "bytes \<Rightarrow> nat \<times> bytes" where
  "sni_ext name = (0, vec16 (0 # vec16 name))"

definition hello_body :: "client_hello \<Rightarrow> bytes \<Rightarrow> bytes" where
  "hello_body h name = ch_version_random h @ vec8 (ch_session_id h) @ vec16 (ch_cipher_suites h) @ vec8 (ch_compression h) @
    vec16 (concat (map enc_ext (ch_extensions h @ [sni_ext name])))"

definition encode_hello :: "client_hello \<Rightarrow> bytes \<Rightarrow> bytes" where
  "encode_hello h name = CONTENT_TYPE_HANDSHAKE # ch_record_header h @ [1] @ nat_be 3 (length (hello_body h name)) @ hello_body h name"

definition hello_wf :: "client_hello \<Rightarrow> bool" where
  "hello_wf h = (length (ch_record_header h) = 4 \<and> length (ch_version_random h) = 34 \<and> length (ch_session_id h) < 256 \<and>
    length (ch_cipher_suites h) < 2 ^ 16 \<and> length (ch_compression h) < 256 \<and>
    list_all (\<lambda>(t, body). 0 < t \<and> t < 2 ^ 16 \<and> length body < 2 ^ 16) (ch_extensions h))"

lemma take_be_nat_be [simp]: "n < 256 ^ k \<Longrightarrow> take_be k (nat_be k n @ b) = Some (b, n)"
  by (simp add: take_be_def be_nat_nat_be)

lemma take_be_1 [simp]: "take_be 1 (c # b) = Some (b, unat c)"
  by (simp add: take_be_def be_nat_def)

lemma take_exact_append_eq [simp]: "take_exact (a @ b) (length a) = Some (b, a)"
  by (simp add: take_exact_def)

lemma take_exact_len: "length a = n \<Longrightarrow> take_exact (a @ b) n = Some (b, a)"
  by (simp add: take_exact_def)

lemma take_vec8:
  assumes "parcel_spec P" "length a < 256"
  shows "take_record_u8_len P (vec8 a @ b) = Some (b, a)"
proof -
  have "unat (of_nat (length a) :: byte) = length a" using assms(2) by (simp add: unat_of_nat)
  then show ?thesis by (simp add: take_record_u8_len_def parcel_specD [OF assms(1)] vec8_def del: One_nat_def)
qed

lemma take_vec16:
  assumes "parcel_spec P" "length a < 2 ^ 16"
  shows "take_record_be_u16 P (vec16 a @ b) = Some (b, a)"
  using assms(2) by (simp add: parcel_specD [OF assms(1)] vec16_def)

lemma hello_extensions_layout:
  assumes P: "parcel_spec P" and "n < 2 ^ 24" "length vr = 34" "length sid < 256" "length suites < 2 ^ 16" "length cm < 256"
    "length exts < 2 ^ 16"
  shows "hello_extensions P (1 # nat_be 3 n @ vr @ vec8 sid @ vec16 suites @ vec8 cm @ vec16 exts) = Some exts"
proof -
  have "take_len_be_u8 P (1 # b) = Some (b, 1)" for b by (simp add: parcel_specD [OF P] del: One_nat_def)
  moreover have "take_len_be_u24 P (nat_be 3 n @ b) = Some (b, n)" for b
    using assms(2) by (simp add: parcel_specD [OF P])
  moreover have "take_record P (vr @ b) 34 = Some (b, vr)" for b
    using assms(3) by (simp add: parcel_specD [OF P] take_exact_len)
  moreover have "take_len_be_u16 P (vec16 exts) = Some (exts, length exts)"
    using assms(7) by (simp add: parcel_specD [OF P] vec16_def)
  ultimately show ?thesis
    using assms by (simp add: hello_extensions_def take_vec8 take_vec16 HANDSHAKE_TYPE_CLIENT_HELLO_def)
qed

lemma read_names_host: "length name < 2 ^ 16 \<Longrightarrow> read_names (0 # vec16 name @ b) = Some name"
  by (simp add: read_names.simps vec16_def Let_def be_nat_nat_be be_nat_def [of "[_]"])

lemma read_exts_skip:
  assumes "0 < t" "t < 2 ^ 16" "length body < 2 ^ 16"
  shows "read_exts (enc_ext (t, body) @ b) = read_exts b"
  using assms by (subst read_exts.simps) (simp add: enc_ext_def vec16_def Let_def be_nat_nat_be)

lemma read_exts_sni:
  assumes "length name < 2 ^ 16 - 5"
  shows "read_exts (enc_ext (sni_ext name) @ b) = Some name"
  using assms read_names_host [of name b]
  by (subst read_exts.simps) (simp add: enc_ext_def sni_ext_def vec16_def Let_def be_nat_nat_be)

lemma read_exts_list:
  assumes "list_all (\<lambda>(t, body). 0 < t \<and> t < 2 ^ 16 \<and> length body < 2 ^ 16) exts" "length name < 2 ^ 16 - 5"
  shows "read_exts (concat (map enc_ext (exts @ [sni_ext name]))) = Some name"
  using assms(1)
proof (induction exts)
  case Nil
  then show ?case using read_exts_sni [OF assms(2), of "[]"] by simp
next
  case (Cons e exts)
  then show ?case by (cases e) (simp add: read_exts_skip)
qed

text \<open>
  C29. A well-formed ClientHello in one record, with any session id, cipher suites, compression methods
  and any other extensions before the server name, yields exactly the name it was built with, also
  when more data follows it.
\<close>

theorem sni_round_trip:
  assumes "parcel_spec P" "hello_wf h" "length name < 2 ^ 16 - 5"
    "length (concat (map enc_ext (ch_extensions h @ [sni_ext name]))) < 2 ^ 16" "length (hello_body h name) < 2 ^ 24"
  shows "extract_sni P (encode_hello h name @ later) = Some (Some name)"
proof -
  let ?exts = "concat (map enc_ext (ch_extensions h @ [sni_ext name]))"
  have w: "length (ch_record_header h) = 4" "length (ch_version_random h) = 34" "length (ch_session_id h) < 256"
    "length (ch_cipher_suites h) < 2 ^ 16" "length (ch_compression h) < 256"
    "list_all (\<lambda>(t, body). 0 < t \<and> t < 2 ^ 16 \<and> length body < 2 ^ 16) (ch_extensions h)"
    using assms(2) by (simp_all add: hello_wf_def)
  have d: "drop 5 (encode_hello h name) = 1 # nat_be 3 (length (hello_body h name)) @ hello_body h name"
    using w(1) by (simp add: encode_hello_def)
  have "hello_extensions P (drop 5 (encode_hello h name)) = Some ?exts"
    using hello_extensions_layout [OF assms(1,5) w(2-5) assms(4)] unfolding d by (simp only: hello_body_def append.assoc)
  then have "sni_of P (encode_hello h name) = Some name"
    using read_exts_list [OF w(6) assms(3)] w(1)
    by (simp add: sni_of_def encode_hello_def hello_body_def w(2) del: concat_append map_append)
  then show ?thesis using extract_sni_eq [OF assms(1)] sni_of_append [OF assms(1)] by simp
qed

definition std_parcel :: parcel where
  "std_parcel = \<lparr> take_len_be_u8 = take_be 1, take_len_be_u16 = take_be 2, take_len_be_u24 = take_be 3, take_record = take_exact,
    take_record_be_u16 = (\<lambda>b. Option.bind (take_be 2 b) (\<lambda>(b1, n). take_exact b1 n)) \<rparr>"

lemma std_parcel_ok: "parcel_spec std_parcel"
  by (simp add: parcel_spec_def std_parcel_def)

definition ascii_names :: name_ops where
  "ascii_names = \<lparr> from_utf8 = (\<lambda>b. if list_all (\<lambda>c. c < 128) b then Some (map (\<lambda>c. char_of (unat c)) b) else None),
    is_dns_name = (\<lambda>s. s \<noteq> []) \<rparr>"

definition demo_hello :: client_hello where
  "demo_hello = \<lparr> ch_record_header = [3, 1, 0, 80], ch_version_random = replicate 34 7, ch_session_id = [],
    ch_cipher_suites = [0x13, 0x01], ch_compression = [0], ch_extensions = [(0x2B, [2, 3, 4])] \<rparr>"

lemma demo_hello_wf:
  "hello_wf demo_hello" "length (concat (map enc_ext (ch_extensions demo_hello @ [sni_ext [97, 46, 98]]))) < 2 ^ 16"
  "length (hello_body demo_hello [97, 46, 98]) < 2 ^ 24"
  by (simp_all add: hello_wf_def demo_hello_def hello_body_def vec8_def vec16_def enc_ext_def sni_ext_def)

theorem sni_round_trip_witness: "extract_sni std_parcel (encode_hello demo_hello [97, 46, 98] @ [0, 1]) = Some (Some [97, 46, 98])"
  using sni_round_trip [OF std_parcel_ok demo_hello_wf(1) _ demo_hello_wf(2,3), of "[0, 1]"] by simp

theorem extract_sni_total_witness: "extract_sni std_parcel (replicate 12 0x17) = Some None"
  using extract_sni_total [OF std_parcel_ok, of "replicate 12 0x17" "[]"] by (auto simp: CONTENT_TYPE_HANDSHAKE_def)


section \<open>The PROXY-protocol header\<close>

definition V1_PROTOCOL_PREFIX :: bytes where "V1_PROTOCOL_PREFIX = str_bytes ''PROXY''"
definition V1_PREFIX_LEN :: nat where "V1_PREFIX_LEN = 5"
definition V1_MAX_LENGTH :: nat where "V1_MAX_LENGTH = 107"
definition V1_TERMINATOR :: bytes where "V1_TERMINATOR = [13, 10]"
definition V2_PROTOCOL_PREFIX :: bytes where "V2_PROTOCOL_PREFIX = [13, 10, 13, 10, 0, 13, 10, 81, 85, 73, 84, 10]"
definition V2_PREFIX_LEN :: nat where "V2_PREFIX_LEN = 12"
definition V2_MINIMUM_LEN :: nat where "V2_MINIMUM_LEN = 16"
definition V2_LENGTH_INDEX :: nat where "V2_LENGTH_INDEX = 14"
definition READ_BUFFER_LEN :: nat where "READ_BUFFER_LEN = 512"
definition V2_MAX_LENGTH :: nat where "V2_MAX_LENGTH = 2048"

datatype pp_error = Pp_eof | Pp_no_header | Pp_no_terminator | Pp_too_long | Pp_unparsable string

text \<open>
  A buffer is a list of fixed length; \<open>fill i bs buf\<close> writes \<open>bs\<close> at index \<open>i\<close>.  \<^verbatim>\<open>read_exact\<close> gives the next
  bytes of the stream or fails at its end.
\<close>

definition fill :: "nat \<Rightarrow> bytes \<Rightarrow> bytes \<Rightarrow> bytes" where
  "fill i bs buf = take i buf @ bs @ drop (i + length bs) buf"

definition read_exact :: "nat \<Rightarrow> bytes \<Rightarrow> (pp_error + bytes \<times> bytes)" where
  "read_exact n stream = (if length stream < n then Inl Pp_eof else Inr (take n stream, drop n stream))"

definition read_v2_header :: "bytes \<Rightarrow> bytes \<Rightarrow> (pp_error + (bytes option \<times> bytes) \<times> bytes)" where
  "read_v2_header stream buf =
    (let full_length = V2_MINIMUM_LEN + be_nat [buf ! V2_LENGTH_INDEX, buf ! (V2_LENGTH_INDEX + 1)]
     in if V2_MAX_LENGTH < full_length then Inl Pp_too_long
        else rbind (read_exact (full_length - V2_MINIMUM_LEN) stream) (\<lambda>(body, rest).
          if READ_BUFFER_LEN < full_length then Inr ((Some (take V2_MINIMUM_LEN buf @ body), buf), rest)
          else Inr ((None, fill V2_MINIMUM_LEN body buf), rest)))"

text \<open>The byte loop of the version 1 reader; \<open>k\<close> bytes are still allowed.\<close>

fun read_v1_loop :: "nat \<Rightarrow> nat \<Rightarrow> bytes \<Rightarrow> bytes \<Rightarrow> (pp_error + bytes \<times> bytes)" where
  "read_v1_loop 0 i stream buf = Inl Pp_no_terminator"
| "read_v1_loop (Suc k) i [] buf = Inl Pp_eof"
| "read_v1_loop (Suc k) i (c # stream) buf =
    (if [buf ! (i - 1), c] = V1_TERMINATOR then Inr (buf[i := c], stream)
     else read_v1_loop k (Suc i) stream (buf[i := c]))"

definition read_v1_header :: "bytes \<Rightarrow> bytes \<Rightarrow> (pp_error + bytes \<times> bytes)" where
  "read_v1_header stream buf = read_v1_loop (V1_MAX_LENGTH - V1_PREFIX_LEN) V1_PREFIX_LEN stream buf"

text \<open>The bytes handed to the third-party parser, and what remains of the stream.\<close>

definition header_bytes :: "bytes \<Rightarrow> (pp_error + bytes \<times> bytes)" where
  "header_bytes stream =
    rbind (read_exact V1_PREFIX_LEN stream) (\<lambda>(prefix1, rest1).
      let buf1 = fill 0 prefix1 (replicate READ_BUFFER_LEN 0)
      in if take V1_PREFIX_LEN buf1 = V1_PROTOCOL_PREFIX then read_v1_header rest1 buf1
         else rbind (read_exact (V2_MINIMUM_LEN - V1_PREFIX_LEN) rest1) (\<lambda>(prefix2, rest2).
           let buf2 = fill V1_PREFIX_LEN prefix2 buf1
           in if take V2_PREFIX_LEN buf2 = V2_PROTOCOL_PREFIX
              then rbind (read_v2_header rest2 buf2) (\<lambda>((dynamic, buf3), rest3).
                Inr (case dynamic of Some d \<Rightarrow> d | None \<Rightarrow> buf3, rest3))
              else Inl Pp_no_header))"

definition read_proxy_header :: "(bytes \<Rightarrow> string + 'h) \<Rightarrow> bytes \<Rightarrow> (pp_error + 'h \<times> bytes)" where
  "read_proxy_header parse stream =
    rbind (header_bytes stream) (\<lambda>(buf, rest).
      case parse buf of Inl e \<Rightarrow> Inl (Pp_unparsable e) | Inr h \<Rightarrow> Inr (h, rest))"

text \<open>Headers as values; the addresses of a synthesized header are the ends of the connection.\<close>

datatype socket_addr = Addr_v4 "32 word" "16 word" | Addr_v6 "128 word" "16 word"

datatype pp_addresses =
    Pp_ipv4 "32 word \<times> 16 word" "32 word \<times> 16 word"
  | Pp_ipv6 "128 word \<times> 16 word" "128 word \<times> 16 word"
  | Pp_unspec

datatype ProxyHeader = Version2_proxy_stream pp_addresses

definition create_inbound_pp_header :: "socket_addr option \<Rightarrow> socket_addr option \<Rightarrow> ProxyHeader" where
  "create_inbound_pp_header peer_addr local_addr =
    Version2_proxy_stream
      (case (peer_addr, local_addr) of
         (Some (Addr_v4 sip sport), Some (Addr_v4 dip dport)) \<Rightarrow> Pp_ipv4 (sip, sport) (dip, dport)
       | (Some (Addr_v6 sip sport), Some (Addr_v6 dip dport)) \<Rightarrow> Pp_ipv6 (sip, sport) (dip, dport)
       | _ \<Rightarrow> Pp_unspec)"

definition get_inbound_pp_header ::
  "(bytes \<Rightarrow> string + ProxyHeader) \<Rightarrow> bool \<Rightarrow> socket_addr option \<Rightarrow> socket_addr option \<Rightarrow> bytes
    \<Rightarrow> (pp_error + ProxyHeader \<times> bytes)" where
  "get_inbound_pp_header parse inbound_pp_enabled peer_addr local_addr stream =
    (if inbound_pp_enabled then read_proxy_header parse stream
     else Inr (create_inbound_pp_header peer_addr local_addr, stream))"

lemma length_fill: "i + length bs \<le> length buf \<Longrightarrow> length (fill i bs buf) = length buf"
  by (simp add: fill_def)

lemma fill_Cons: "i < length buf \<Longrightarrow> fill (Suc i) bs (buf[i := c]) = fill i (c # bs) buf"
  by (simp add: fill_def take_Suc_conv_app_nth nth_list_update_eq drop_update_cancel)

lemma read_v1_loop_result:
  assumes "read_v1_loop k i stream buf = Inr (buf', rest)" "0 < i" "i + k \<le> length buf"
  shows "\<exists>m. 0 < m \<and> m \<le> k \<and> m \<le> length stream \<and> rest = drop m stream \<and> buf' = fill i (take m stream) buf \<and>
    [buf' ! (i + m - 2), buf' ! (i + m - 1)] = V1_TERMINATOR"
  using assms
proof (induction k i stream buf rule: read_v1_loop.induct)
  case (3 k i c stream buf)
  show ?case
  proof (cases "[buf ! (i - 1), c] = V1_TERMINATOR")
    case True
    then have r: "buf' = buf[i := c]" "rest = stream" using 3(2) by simp_all
    have "buf' = fill i [c] buf" using 3(4) by (simp add: r fill_def upd_conv_take_nth_drop)
    moreover have "[buf' ! (i - 1), buf' ! i] = V1_TERMINATOR" using True 3(3,4) by (simp add: r)
    ultimately show ?thesis using r by (intro exI [of _ 1]) simp
  next
    case False
    then obtain m where m: "0 < m" "m \<le> k" "m \<le> length stream" "rest = drop m stream"
      "buf' = fill (Suc i) (take m stream) (buf[i := c])" "[buf' ! (Suc i + m - 2), buf' ! (Suc i + m - 1)] = V1_TERMINATOR"
      using 3 by auto
    then show ?thesis
      using 3(4) by (intro exI [of _ "Suc m"]) (simp add: fill_Cons)
  qed
qed simp_all

lemma read_exact_Inr: "read_exact n s = Inr (a, r) \<longleftrightarrow> n \<le> length s \<and> a = take n s \<and> r = drop n s"
  by (auto simp: read_exact_def)

text \<open>The buffer after a header of \<open>k\<close> bytes was read into it: those bytes, then zeros.\<close>

definition holds_header :: "nat \<Rightarrow> bytes \<Rightarrow> bytes \<Rightarrow> bool" where
  "holds_header k stream buf = (k \<le> length stream \<and> k \<le> length buf \<and> buf = take k stream @ replicate (length buf - k) 0)"

lemma fill_zeros:
  assumes "k \<le> length stream" "k + m \<le> length stream" "k + m \<le> n"
  shows "fill k (take m (drop k stream)) (take k stream @ replicate (n - k) 0) = take (k + m) stream @ replicate (n - (k + m)) 0"
  using assms by (simp add: fill_def take_add)

lemma fill_first: "5 \<le> length stream \<Longrightarrow> fill 0 (take 5 stream) (replicate 512 0) = take 5 stream @ replicate (512 - 5) 0"
  by (simp add: fill_def)

lemma header_bytes_v1:
  assumes "read_v1_header (drop 5 stream) (take 5 stream @ replicate (512 - 5) 0) = Inr (buf, rest)" "5 \<le> length stream"
  shows "\<exists>k. holds_header k stream buf \<and> rest = drop k stream \<and> k \<le> 107 \<and> length buf = 512 \<and>
    [buf ! (k - 2), buf ! (k - 1)] = V1_TERMINATOR"
proof -
  obtain m where m: "0 < m" "m \<le> 102" "m \<le> length (drop 5 stream)" "rest = drop m (drop 5 stream)"
    "buf = fill 5 (take m (drop 5 stream)) (take 5 stream @ replicate (512 - 5) 0)"
    "[buf ! (5 + m - 2), buf ! (5 + m - 1)] = V1_TERMINATOR"
    using read_v1_loop_result [OF assms(1) [unfolded read_v1_header_def]] assms(2)
    by (auto simp: V1_MAX_LENGTH_def V1_PREFIX_LEN_def)
  have "buf = take (5 + m) stream @ replicate (512 - (5 + m)) 0"
    unfolding m(5) using m(2,3) assms(2) by (intro fill_zeros) simp_all
  then show ?thesis
    using m assms(2) by (intro exI [of _ "5 + m"]) (auto simp: holds_header_def add.commute)
qed

lemma header_bytes_v2:
  assumes "read_v2_header (drop 16 stream) (take 16 stream @ replicate (512 - 16) 0) = Inr ((dynamic, buf3), rest)" "16 \<le> length stream"
    and buf: "buf = (case dynamic of Some d \<Rightarrow> d | None \<Rightarrow> buf3)"
  shows "\<exists>k. holds_header k stream buf \<and> rest = drop k stream \<and> k \<le> 2048 \<and> length buf \<le> 2048 \<and>
    k = 16 + be_nat [buf ! 14, buf ! 15]"
proof -
  define n where "n = be_nat [stream ! 14, stream ! 15]"
  have n: "be_nat [(take 16 stream @ replicate (512 - 16) 0) ! 14, (take 16 stream @ replicate (512 - 16) 0) ! 15] = n"
    using assms(2) by (simp add: nth_append n_def)
  have r: "16 + n \<le> 2048" "n \<le> length (drop 16 stream)" "rest = drop n (drop 16 stream)"
    "buf = (if 512 < 16 + n then take 16 stream @ take n (drop 16 stream)
      else fill 16 (take n (drop 16 stream)) (take 16 stream @ replicate (512 - 16) 0))"
    using assms n
    by (auto simp: read_v2_header_def Let_def V2_MINIMUM_LEN_def V2_LENGTH_INDEX_def V2_MAX_LENGTH_def READ_BUFFER_LEN_def
        rbind_eq_Inr read_exact_Inr split: if_splits)
  have b: "buf = take (16 + n) stream @ replicate ((if 512 < 16 + n then 16 + n else 512) - (16 + n)) 0"
  proof (cases "512 < 16 + n")
    case True
    then show ?thesis using r(4) by (simp add: take_add)
  next
    case False
    then show ?thesis using r(2,4) assms(2) fill_zeros [of 16 stream n 512] by simp
  qed
  then have "buf ! 14 = stream ! 14" "buf ! 15 = stream ! 15" using r(2) assms(2) by (simp_all add: nth_append)
  then show ?thesis
    using b r assms(2) by (intro exI [of _ "16 + n"]) (auto simp: holds_header_def n_def add.commute split: if_splits)
qed

text \<open>
  C18. Reading a PROXY header consumes exactly the header and never more than its bound.  The buffer
  given to the parser starts with the bytes consumed and is zero after them; a version 2 header is
  complete, with the body length it declares, in at most 2048 bytes; a version 1 header ends with its
  line terminator within 107 bytes and is followed by padding.
\<close>

theorem proxy_header_bounded:
  assumes "header_bytes stream = Inr (buf, rest)"
  shows "\<exists>k. holds_header k stream buf \<and> rest = drop k stream \<and> length buf \<le> V2_MAX_LENGTH \<and>
    (take 5 stream = V1_PROTOCOL_PREFIX \<and> k \<le> V1_MAX_LENGTH \<and> k + 2 \<le> length buf \<and>
       [buf ! (k - 2), buf ! (k - 1)] = V1_TERMINATOR \<or>
     take 12 stream = V2_PROTOCOL_PREFIX \<and> k = V2_MINIMUM_LEN + be_nat [buf ! 14, buf ! 15])"
proof -
  have l: "5 \<le> length stream" using assms by (auto simp: header_bytes_def rbind_eq_Inr read_exact_Inr V1_PREFIX_LEN_def)
  note f = fill_first [OF l]
  have p: "length V1_PROTOCOL_PREFIX = 5" by (simp add: V1_PROTOCOL_PREFIX_def)
  show ?thesis
  proof (cases "take 5 stream = V1_PROTOCOL_PREFIX")
    case True
    then have "read_v1_header (drop 5 stream) (take 5 stream @ replicate (512 - 5) 0) = Inr (buf, rest)"
      using assms l f p by (simp add: header_bytes_def rbind_eq_Inr read_exact_def V1_PREFIX_LEN_def READ_BUFFER_LEN_def Let_def)
    from header_bytes_v1 [OF this l] True show ?thesis by (auto simp: V2_MAX_LENGTH_def V1_MAX_LENGTH_def)
  next
    case False
    have z: "fill 5 (take 11 (drop 5 stream)) (take 5 stream @ replicate (512 - 5) 0) = take 16 stream @ replicate (512 - 16) 0"
      if "16 \<le> length stream"
      using fill_zeros [of 5 stream 11 512] that by simp
    obtain dynamic buf3 where r: "16 \<le> length stream" "take 12 stream = V2_PROTOCOL_PREFIX"
      "read_v2_header (drop 16 stream) (take 16 stream @ replicate (512 - 16) 0) = Inr ((dynamic, buf3), rest)"
      "buf = (case dynamic of Some d \<Rightarrow> d | None \<Rightarrow> buf3)"
      using assms l f z False
      by (auto simp: header_bytes_def rbind_eq_Inr read_exact_Inr V1_PREFIX_LEN_def READ_BUFFER_LEN_def V2_MINIMUM_LEN_def
          V2_PREFIX_LEN_def Let_def split: if_splits)
    from header_bytes_v2 [OF r(3,1,4)] r(2) show ?thesis by (auto simp: V2_MAX_LENGTH_def V2_MINIMUM_LEN_def)
  qed
qed

definition demo_pp :: bytes where
  "demo_pp = V2_PROTOCOL_PREFIX @ [0x21, 0x11, 0, 2, 8, 9, 55]"

theorem proxy_header_bounded_witness:
  "\<exists>buf. header_bytes demo_pp = Inr (buf, [55]) \<and> (\<exists>k. holds_header k demo_pp buf \<and> [55] = drop k demo_pp)"
proof -
  have "map_sum id snd (header_bytes demo_pp) = Inr [55]"
    by (simp add: header_bytes_def demo_pp_def V2_PROTOCOL_PREFIX_def read_exact_def fill_def V1_PREFIX_LEN_def READ_BUFFER_LEN_def
        V2_MINIMUM_LEN_def V2_PREFIX_LEN_def V1_PROTOCOL_PREFIX_def str_bytes_def read_v2_header_def V2_LENGTH_INDEX_def
        V2_MAX_LENGTH_def be_nat_def Let_def nth_append)
  then obtain buf where "header_bytes demo_pp = Inr (buf, [55])" by (cases "header_bytes demo_pp") auto
  then show ?thesis using proxy_header_bounded by blast
qed

end
