(* ===== verification/Gateway_Route.thy ===== *)
theory Gateway_Route
  imports Gateway_Policy Gateway_Sni
begin

text \<open>
  From a server name to a connection (\<^verbatim>\<open>gateway/src/proxy.rs\<close>, \<^verbatim>\<open>gateway/src/proxy/tls_passthough.rs\<close>): the
  destination in a sub-domain of the gateway, the destination in a DNS TXT record, the connection limit
  of an app, connecting to the selected instances, and the whole path of a passed-through connection.
  The DNS resolver is an argument, as is which of several simultaneous connection attempts completes
  when.
\<close>

section \<open>Destinations\<close>

datatype route_error =
    Invalid_port
  | No_app_id
  | App_id_is_empty
  | Gs_not_allowed
  | Invalid_sni_format
  | Invalid_app_address
  | Lookup_failed string
  | No_txt_record string
  | Unresolved string
  | No_addresses
  | Limit_exceeded "64 word" "64 word"
  | Connect_failed
  | Selection_failed state_error
  | Not_allowed filter_error
  | Invalid_sni
  | No_sni
  | Sni_error sni_error

definition parse_canonical_port :: "string \<Rightarrow> (route_error + 16 word)" where
  "parse_canonical_port port_str =
    (if (case port_str of [] \<Rightarrow> False | c # _ \<Rightarrow> c = CHR ''0'') \<or> \<not> list_all (\<lambda>c. digit_val c \<noteq> None) port_str then Inl Invalid_port
     else case parse_uint 16 port_str of None \<Rightarrow> Inl Invalid_port | Some n \<Rightarrow> Inr (of_nat n))"

fun split_on :: "char \<Rightarrow> string \<Rightarrow> string list" where
  "split_on sep [] = [[]]"
| "split_on sep (c # cs) =
    (if c = sep then [] # split_on sep cs
     else (case split_on sep cs of [] \<Rightarrow> [[c]] | p # ps \<Rightarrow> (c # p) # ps))"

fun split_once :: "char \<Rightarrow> string \<Rightarrow> (string \<times> string) option" where
  "split_once sep [] = None"
| "split_once sep (c # cs) =
    (if c = sep then Some ([], cs) else map_option (\<lambda>(a, b). (c # a, b)) (split_once sep cs))"

definition strip_suffix_char :: "char \<Rightarrow> string \<Rightarrow> string option" where
  "strip_suffix_char c s = (if s \<noteq> [] \<and> last s = c then Some (butlast s) else None)"

record DstInfo =
  di_app_id :: string
  di_port :: "16 word"
  di_is_tls :: bool
  di_is_h2 :: bool

definition strip_flag :: "char \<Rightarrow> string \<Rightarrow> string \<times> bool" where
  "strip_flag c s = (case strip_suffix_char c s of Some r \<Rightarrow> (r, True) | None \<Rightarrow> (s, False))"

text \<open>The part after the dash: a port that may be left out, then \<open>s\<close> or \<open>g\<close>.\<close>

definition parse_port_part :: "string \<Rightarrow> (route_error + 16 word option \<times> bool \<times> bool)" where
  "parse_port_part part =
    (let (p1, has_g) = strip_flag (CHR ''g'') part; (p2, has_s) = strip_flag (CHR ''s'') p1
     in if has_g \<and> has_s then Inl Gs_not_allowed
        else if p2 = [] then Inr (None, has_s, has_g)
        else rbind (parse_canonical_port p2) (\<lambda>port. Inr (Some port, has_s, has_g)))"

definition parse_dst_info :: "string \<Rightarrow> (route_error + DstInfo)" where
  "parse_dst_info subdomain =
    (case split_on (CHR ''-'') subdomain of
       [] \<Rightarrow> Inl No_app_id
     | app_id # parts \<Rightarrow>
        if app_id = [] then Inl App_id_is_empty
        else rbind (case parts of [] \<Rightarrow> Inr (None, False, False) | last_part # _ \<Rightarrow> parse_port_part last_part) (\<lambda>(port, is_tls, is_h2).
          if 1 < length parts then Inl Invalid_sni_format
          else Inr \<lparr> di_app_id = app_id,
            di_port = (case port of Some p \<Rightarrow> p | None \<Rightarrow> if is_tls then 443 else 80), di_is_tls = is_tls, di_is_h2 = is_h2 \<rparr>))"

record AppAddress =
  aa_app_id :: string
  aa_port :: "16 word"

definition app_address_parse :: "name_ops \<Rightarrow> bytes \<Rightarrow> (route_error + AppAddress)" where
  "app_address_parse N data =
    (case from_utf8 N data of
       None \<Rightarrow> Inl Invalid_app_address
     | Some s \<Rightarrow>
        (case split_once (CHR '':'') s of
           None \<Rightarrow> Inl Invalid_app_address
         | Some (app_id, port) \<Rightarrow>
            rbind (parse_canonical_port port) (\<lambda>p. Inr \<lparr> aa_app_id = app_id, aa_port = p \<rparr>)))"

text \<open>An answer of the resolver: \<open>None\<close> for a record that is not TXT, else its character strings.\<close>

type_synonym txt_answers = "bytes list option list"

fun parse_lookup :: "name_ops \<Rightarrow> txt_answers \<Rightarrow> (route_error + AppAddress option)" where
  "parse_lookup N [] = Inr None"
| "parse_lookup N (None # rest) = parse_lookup N rest"
| "parse_lookup N (Some [] # rest) = parse_lookup N rest"
| "parse_lookup N (Some (data # _) # rest) = rbind (app_address_parse N data) (\<lambda>a. Inr (Some a))"

text \<open>Try the lookups in order: one that failed or has no TXT record is passed over, one that does not parse is an error.\<close>

fun first_address :: "name_ops \<Rightarrow> (string + txt_answers) list \<Rightarrow> (route_error + AppAddress option)" where
  "first_address N [] = Inr None"
| "first_address N (Inl _ # rest) = first_address N rest"
| "first_address N (Inr answers # rest) =
    rbind (parse_lookup N answers) (\<lambda>r. case r of Some a \<Rightarrow> Inr (Some a) | None \<Rightarrow> first_address N rest)"

definition resolve_app_address ::
  "name_ops \<Rightarrow> (string \<Rightarrow> string + txt_answers) \<Rightarrow> string \<Rightarrow> string \<Rightarrow> bool \<Rightarrow> (route_error + AppAddress)" where
  "resolve_app_address N txt_lookup pre sni legacy_too =
    rbind (first_address N (txt_lookup (pre @ ''.'' @ sni) #
        (if legacy_too \<and> pre \<noteq> ''_tapp-address'' then [txt_lookup (''_tapp-address.'' @ sni)] else []))) (\<lambda>r.
      case r of
        Some a \<Rightarrow> Inr a
      | None \<Rightarrow>
         (case split_once (CHR ''.'') sni of
            None \<Rightarrow> Inl (Unresolved sni)
          | Some (_, parent) \<Rightarrow>
             (case txt_lookup (pre @ ''-wildcard.'' @ parent) of
                Inl e \<Rightarrow> Inl (Lookup_failed e)
              | Inr answers \<Rightarrow>
                 rbind (parse_lookup N answers) (\<lambda>w.
                   case w of Some a \<Rightarrow> Inr a | None \<Rightarrow> Inl (No_txt_record sni)))))"

section \<open>Connecting\<close>

definition enter_connection_limit ::
  "counter_ref \<Rightarrow> AddressGroup \<Rightarrow> 64 word \<Rightarrow> counters \<Rightarrow> (route_error + counters)" where
  "enter_connection_limit counter others max_connections c =
    (if max_connections = 0 then Inr (counter_inc counter c)
     else let total = sum_list (map (\<lambda>a. c (ad_counter a)) others)
          in case try_enter counter total max_connections c of
               Some c1 \<Rightarrow> Inr c1
             | None \<Rightarrow> Inl (Limit_exceeded (c counter + total) max_connections))"

definition leave_all :: "AddressGroup \<Rightarrow> counters \<Rightarrow> counters" where
  "leave_all as c = fold (\<lambda>a. counter_dec (ad_counter a)) as c"

text \<open>
  \<open>order\<close> lists the attempts in the order they complete, with whether they succeeded.  The first
  success wins; the counters of all others are released when their tasks are dropped.
\<close>

definition connect_multiple_hosts ::
  "(nat \<times> bool) list \<Rightarrow> AddressGroup \<Rightarrow> 64 word \<Rightarrow> counters \<Rightarrow> (route_error + AddressInfo) \<times> counters" where
  "connect_multiple_hosts order addresses max_connections c =
    (case addresses of
       [] \<Rightarrow> (Inl No_addresses, c)
     | first # others \<Rightarrow>
        (case enter_connection_limit (ad_counter first) others max_connections c of
           Inl e \<Rightarrow> (Inl e, c)
         | Inr c1 \<Rightarrow>
            (let c2 = fold (\<lambda>a. counter_inc (ad_counter a)) others c1
             in case List.find (\<lambda>(i, ok). ok \<and> i < length addresses) order of
                  None \<Rightarrow> (Inl Connect_failed, leave_all addresses c2)
                | Some (i, _) \<Rightarrow> (Inr (addresses ! i), leave_all (take i addresses @ drop (Suc i) addresses) c2))))"

section \<open>A passed-through connection\<close>

definition connect_app ::
  "(nat \<times> bool) list \<Rightarrow> AddressGroup \<Rightarrow> 64 word \<Rightarrow> 16 word \<Rightarrow> ('net, 's) Proxy \<Rightarrow> (route_error + AddressInfo \<times> bool) \<times> ('net, 's) Proxy" where
  "connect_app order addresses max_connections port p =
    (case connect_multiple_hosts order addresses max_connections (st_counters (px_state p)) of
       (Inl e, c) \<Rightarrow> (Inl e, p\<lparr> px_state := (px_state p)\<lparr> st_counters := c \<rparr> \<rparr>)
     | (Inr a, c) \<Rightarrow>
        (let p1 = p\<lparr> px_state := (px_state p)\<lparr> st_counters := c \<rparr> \<rparr>
         in (Inr (a, should_send_pp (ad_instance_id a) port p1), p1)))"

record select_args =
  sa_tick :: nat
  sa_handshakes :: "kv_error + Handshakes"
  sa_handshakes_again :: "kv_error + Handshakes"
  sa_random :: nat

definition proxy_to_app ::
  "select_args \<Rightarrow> (nat \<times> bool) list \<Rightarrow> 64 word \<Rightarrow> string \<Rightarrow> 16 word \<Rightarrow> ('net, 's) Proxy
    \<Rightarrow> (route_error + AddressInfo \<times> bool) \<times> ('net, 's) Proxy" where
  "proxy_to_app A order max_connections app_id port p =
    (case on_state (select_top_n_hosts (sa_tick A) (sa_handshakes A) (sa_handshakes_again A) (sa_random A) app_id) p of
       (Inl e, p1) \<Rightarrow> (Inl (Selection_failed e), p1)
     | (Inr addresses, p1) \<Rightarrow>
        (case filter_allowed_addresses (sa_handshakes A) addresses app_id port p1 of
           (Inl e, p2) \<Rightarrow> (Inl (Not_allowed e), p2)
         | (Inr allowed, p2) \<Rightarrow> connect_app order allowed max_connections port p2))"

text \<open>Where a connection goes, from its server name and the wildcard domains this gateway has a certificate for.\<close>

datatype route = Passthrough string "16 word" | Terminate string "16 word" bool

definition route_connection ::
  "name_ops \<Rightarrow> (string \<Rightarrow> string + txt_answers) \<Rightarrow> string \<Rightarrow> bool \<Rightarrow> (string \<Rightarrow> bool) \<Rightarrow> string \<Rightarrow> (route_error + route)" where
  "route_connection N txt_lookup pre legacy_too contains_wildcard sni =
    (case split_once (CHR ''.'') sni of
       None \<Rightarrow> Inl Invalid_sni
     | Some (subdomain, base_domain) \<Rightarrow>
        if contains_wildcard base_domain
        then rbind (parse_dst_info subdomain) (\<lambda>dst.
          Inr (if di_is_tls dst then Passthrough (di_app_id dst) (di_port dst)
               else Terminate (di_app_id dst) (di_port dst) (di_is_h2 dst)))
        else rbind (resolve_app_address N txt_lookup pre sni legacy_too) (\<lambda>a. Inr (Passthrough (aa_app_id a) (aa_port a))))"

section \<open>Facts\<close>

lemma show_nat_rec: "0 < a \<Longrightarrow> d < 10 \<Longrightarrow> show_nat (a * 10 + d) = show_nat a @ [digit_char d]"
  by (subst show_nat.simps) simp

lemma digit_char_0: "digit_char 0 = CHR ''0''"
  by code_simp

lemma digit_char_inj: "d < 10 \<Longrightarrow> e < 10 \<Longrightarrow> digit_char d = digit_char e \<longleftrightarrow> d = e"
  by (metis digit_val_char option.inject)

lemma digit_val_inv: "digit_val c = Some d \<Longrightarrow> d < 10 \<and> c = digit_char d"
  by (auto simp: digit_val_def digit_char_def Let_def split: if_splits)

lemma parse_digits_inv:
  assumes "parse_digits w ds = Some n" "ds \<noteq> []" "hd ds \<noteq> CHR ''0''"
  shows "show_nat n = ds"
  using assms
proof (induction ds arbitrary: n rule: rev_induct)
  case (snoc c es)
  obtain a d where a: "parse_digits w es = Some a" "digit_val c = Some d" "n = a * 10 + d"
    using snoc.prems(1)
    by (auto simp: parse_digits_def checked_mul_def checked_add_def bind_eq_Some_conv split: if_splits)
  note d = digit_val_inv [OF a(2)]
  show ?case
  proof (cases "es = []")
    case True
    then have "n = d" using a by (simp add: parse_digits_def)
    then show ?thesis using d True by (subst show_nat.simps) simp
  next
    case False
    then have es: "show_nat a = es" using snoc.IH [OF a(1)] snoc.prems(3) by simp
    have "0 < a"
    proof (rule ccontr)
      assume "\<not> 0 < a"
      then have "es = ''0''" using es by (simp add: show_nat.simps digit_char_0)
      then show False using snoc.prems(3) by simp
    qed
    then show ?thesis using show_nat_rec d es a(3) by simp
  qed
qed simp

lemma show_nat_hd: "0 < n \<Longrightarrow> hd (show_nat n) \<noteq> CHR ''0''"
proof (induction n rule: show_nat.induct)
  case (1 n)
  show ?case
  proof (cases "n < 10")
    case True
    then show ?thesis using 1(2) digit_char_inj [of n 0] by (subst show_nat.simps) (simp add: digit_char_0)
  next
    case False
    then show ?thesis using 1 by (subst show_nat.simps) (simp add: div_greater_zero_iff)
  qed
qed

lemma parse_digits_bound: "parse_digits w ds = Some n \<Longrightarrow> n < 2 ^ w"
  by (cases ds rule: rev_cases)
    (auto simp: parse_digits_def checked_add_def bind_eq_Some_conv split: if_splits)

lemma canonical_port_iff: "parse_canonical_port s = Inr p \<longleftrightarrow> p \<noteq> 0 \<and> s = show_nat (unat p)"
proof
  assume p: "parse_canonical_port s = Inr p"
  then obtain c r where s: "s = c # r" by (cases s) (auto simp: parse_canonical_port_def parse_uint_def)
  have plus: "c \<noteq> CHR ''+''"
    using p by (auto simp: s parse_canonical_port_def digit_val_def split: if_splits)
  obtain n where n: "parse_digits 16 s = Some n" "p = of_nat n" "c \<noteq> CHR ''0''"
    using p plus by (auto simp: s parse_canonical_port_def parse_uint_def split: if_splits option.splits)
  then have sn: "s = show_nat n" using parse_digits_inv [of 16 s n] s by simp
  have "0 < n" using sn s n(3) by (cases n) (auto simp: show_nat.simps digit_char_0)
  moreover have "unat p = n" using parse_digits_bound [OF n(1)] n(2) by (simp add: unat_of_nat)
  ultimately show "p \<noteq> 0 \<and> s = show_nat (unat p)" using sn by auto
next
  assume a: "p \<noteq> 0 \<and> s = show_nat (unat p)"
  have "unat p < 2 ^ 16" using unsigned_less [of p] by simp
  with a have "parse_uint 16 s = Some (unat p)" by (simp add: parse_uint_show)
  moreover have "hd s \<noteq> CHR ''0''" using show_nat_hd [of "unat p"] a by (simp add: unat_gt_0)
  then have "\<not> (case s of [] \<Rightarrow> False | c # _ \<Rightarrow> c = CHR ''0'')" by (cases s) simp_all
  moreover have "list_all (\<lambda>c. digit_val c \<noteq> None) s" using a show_nat_digits by (auto simp: list_all_iff)
  ultimately show "parse_canonical_port s = Inr p" by (simp only: parse_canonical_port_def) simp
qed

section \<open>Counting connections\<close>

definition uses :: "AddressGroup \<Rightarrow> counter_ref \<Rightarrow> 64 word" where
  "uses as r = of_nat (length (filter (\<lambda>a. ad_counter a = r) as))"

lemma uses_simps [simp]: "uses [] r = 0" "uses (a # as) r = (if ad_counter a = r then uses as r + 1 else uses as r)"
  "uses (as @ bs) r = uses as r + uses bs r"
  by (simp_all add: uses_def)

lemma enter_all: "fold (\<lambda>a. counter_inc (ad_counter a)) as c r = c r + uses as r"
  by (induction as arbitrary: c) (simp_all add: counter_inc_def algebra_simps)

lemma leave_all: "leave_all as c r = c r - uses as r"
  unfolding leave_all_def by (induction as arbitrary: c) (simp_all add: counter_dec_def algebra_simps)

lemma enter_connection_limit_Inr:
  assumes "enter_connection_limit r others mx c = Inr c'"
  shows "c' = counter_inc r c" "mx \<noteq> 0 \<Longrightarrow> c r + sum_list (map (\<lambda>a. c (ad_counter a)) others) < mx"
  using assms try_enter_some [of r _ mx c c']
  by (auto simp: enter_connection_limit_def try_enter_def Let_def split: if_splits option.splits)

lemma unat_sum_list:
  fixes ws :: "'a::len word list"
  shows "sum_list (map unat ws) < 2 ^ LENGTH('a) \<Longrightarrow> unat (sum_list ws) = sum_list (map unat ws)"
  by (induction ws) (simp_all add: unat_word_ariths)

lemma connect_result:
  assumes "connect_multiple_hosts order as mx c = (r, c')"
  shows "case r of Inl _ \<Rightarrow> c' = c | Inr a \<Rightarrow> a \<in> set as \<and> c' = counter_inc (ad_counter a) c"
proof (cases as)
  case Nil
  then show ?thesis using assms by (auto simp: connect_multiple_hosts_def)
next
  case (Cons first others)
  show ?thesis
  proof (cases "enter_connection_limit (ad_counter first) others mx c")
    case (Inl e)
    then show ?thesis using assms by (auto simp: Cons connect_multiple_hosts_def)
  next
    case (Inr c1)
    define c2 where "c2 = fold (\<lambda>a. counter_inc (ad_counter a)) others c1"
    have c2: "c2 r = c r + uses as r" for r
      unfolding c2_def enter_all enter_connection_limit_Inr(1) [OF Inr] by (simp add: Cons counter_inc_def)
    show ?thesis
    proof (cases "List.find (\<lambda>(i, ok). ok \<and> i < length as) order")
      case None
      then have "r = Inl Connect_failed" "c' = leave_all as c2"
        using assms Inr by (auto simp: Cons connect_multiple_hosts_def Let_def c2_def)
      then show ?thesis by (simp add: fun_eq_iff leave_all c2)
    next
      case (Some x)
      then have i: "fst x < length as" by (auto simp: find_Some_iff case_prod_beta)
      let ?a = "as ! fst x" and ?rest = "take (fst x) as @ drop (Suc (fst x)) as"
      have "r = Inr ?a" "c' = leave_all ?rest c2"
        using assms Inr Some by (auto simp: Cons connect_multiple_hosts_def Let_def c2_def case_prod_beta)
      moreover have "uses as r = uses (?a # ?rest) r" for r
        using id_take_nth_drop [OF i] uses_simps(3) [of "take (fst x) as" "?a # drop (Suc (fst x)) as" r]
        by (simp add: add.assoc add.left_commute)
      ultimately show ?thesis
        using i by (simp add: fun_eq_iff leave_all c2 counter_inc_def)
    qed
  qed
qed

lemma connect_limit:
  assumes "fst (connect_multiple_hosts order as mx c) = Inr a" "mx \<noteq> 0"
  shows "sum_list (map (\<lambda>a. c (ad_counter a)) as) < mx"
  using assms enter_connection_limit_Inr(2) [of _ _ mx c]
  by (cases as) (auto simp: connect_multiple_hosts_def Let_def split: sum.splits)

lemma connect_refused:
  assumes "fst (connect_multiple_hosts order as mx c) = Inl (Limit_exceeded t m)"
  shows "m = mx \<and> t = sum_list (map (\<lambda>a. c (ad_counter a)) as) \<and> mx \<le> t"
  using assms
  by (cases as) (auto simp: connect_multiple_hosts_def enter_connection_limit_def try_enter_def Let_def not_less
      split: sum.splits if_splits option.splits)



section \<open>The spellings of a destination\<close>

text \<open>
  The sub-domains that name a destination: the application, then a dash, the port and the flag; the port
  may be left out when it is the default of its flag, and with neither flag nor port the dash as well.
\<close>

definition dst_wf :: "DstInfo \<Rightarrow> bool" where
  "dst_wf d = (di_app_id d \<noteq> [] \<and> CHR ''-'' \<notin> set (di_app_id d) \<and> di_port d \<noteq> 0 \<and> \<not> (di_is_tls d \<and> di_is_h2 d))"

definition default_port :: "bool \<Rightarrow> 16 word" where
  "default_port is_tls = (if is_tls then 443 else 80)"

definition port_digits :: "16 word option \<Rightarrow> string" where
  "port_digits port = (case port of None \<Rightarrow> [] | Some p \<Rightarrow> show_nat (unat p))"

definition spell_part :: "16 word option \<Rightarrow> bool \<Rightarrow> bool \<Rightarrow> string" where
  "spell_part port is_tls is_h2 = port_digits port @ (if is_tls then ''s'' else []) @ (if is_h2 then ''g'' else [])"

definition spellings :: "DstInfo \<Rightarrow> string set" where
  "spellings d =
    {di_app_id d @ CHR ''-'' # spell_part port (di_is_tls d) (di_is_h2 d) | port.
      port = Some (di_port d) \<or> port = None \<and> di_port d = default_port (di_is_tls d)} \<union>
    (if \<not> di_is_tls d \<and> \<not> di_is_h2 d \<and> di_port d = default_port False then {di_app_id d} else {})"

lemma split_on_nonempty [simp]: "split_on c s \<noteq> []"
  by (induction s) (auto split: list.split)

lemma split_on_none: "c \<notin> set s \<Longrightarrow> split_on c s = [s]"
  by (induction s) auto

lemma split_on_cons: "c \<notin> set a \<Longrightarrow> split_on c (a @ c # r) = a # split_on c r"
  by (induction a) auto

lemma split_on_inv:
  assumes "split_on c s = a # ps"
  shows "c \<notin> set a \<and> (if ps = [] then s = a else (\<exists>r. s = a @ c # r \<and> split_on c r = ps))"
  using assms
proof (induction s arbitrary: a ps)
  case (Cons x s)
  obtain b qs where b: "split_on c s = b # qs" using split_on_nonempty by (metis neq_Nil_conv)
  show ?case
  proof (cases "x = c")
    case True
    then show ?thesis using Cons.prems by (auto intro: exI [of _ s])
  next
    case False
    then have "a = x # b" "ps = qs" using Cons.prems b by auto
    then show ?thesis using Cons.IH [OF b] False by (auto split: if_splits)
  qed
qed simp

lemma strip_flag_eq:
  "strip_flag c s = (r, b) \<longleftrightarrow> (if b then s = r @ [c] else s = r \<and> (s = [] \<or> last s \<noteq> c))"
  by (cases s rule: rev_cases) (auto simp: strip_flag_def strip_suffix_char_def)

lemma show_nat_last: "last (show_nat n) \<noteq> CHR ''s'' \<and> last (show_nat n) \<noteq> CHR ''g'' \<and> CHR ''-'' \<notin> set (show_nat n)"
proof -
  have "digit_val (CHR ''s'') = None" "digit_val (CHR ''g'') = None" "digit_val (CHR ''-'') = None" by code_simp+
  then show ?thesis using show_nat_digits [of _ n] last_in_set [OF show_nat_nonempty, of n] by metis
qed

lemma port_digits_simps: "port_digits (Some p) \<noteq> []" "port_digits port = [] \<longleftrightarrow> port = None" "CHR ''-'' \<notin> set (port_digits port)"
  "last (port_digits (Some p)) \<noteq> CHR ''s''" "last (port_digits (Some p)) \<noteq> CHR ''g''"
  using show_nat_last by (auto simp: port_digits_def split: option.split)

lemma spell_part_strip:
  assumes "\<not> (is_tls \<and> is_h2)"
  shows "strip_flag (CHR ''g'') (spell_part port is_tls is_h2) = (spell_part port is_tls False, is_h2)"
    "strip_flag (CHR ''s'') (spell_part port is_tls False) = (port_digits port, is_tls)"
  using assms port_digits_simps by (cases port; auto simp: strip_flag_eq spell_part_def)+

lemma parse_port_part_eq:
  "parse_port_part part = Inr (port, is_tls, is_h2) \<longleftrightarrow>
    \<not> (is_tls \<and> is_h2) \<and> port \<noteq> Some 0 \<and> part = spell_part port is_tls is_h2"
proof -
  obtain p1 g where p1: "strip_flag (CHR ''g'') part = (p1, g)" by fastforce
  obtain p2 s where p2: "strip_flag (CHR ''s'') p1 = (p2, s)" by fastforce
  have "parse_port_part part = Inr (port, is_tls, is_h2) \<longleftrightarrow>
      \<not> (is_tls \<and> is_h2) \<and> port \<noteq> Some 0 \<and> (s = is_tls \<and> g = is_h2 \<and> p2 = port_digits port)"
    by (cases port) (auto simp: parse_port_part_def p1 p2 rbind_eq_Inr canonical_port_iff port_digits_def
        not_sym [OF show_nat_nonempty])
  moreover have "part = spell_part port s g" if "p2 = port_digits port"
    using p1 p2 that by (auto simp: strip_flag_eq spell_part_def split: if_splits)
  moreover have "s = is_tls \<and> g = is_h2 \<and> p2 = port_digits port" if "\<not> (is_tls \<and> is_h2)" "part = spell_part port is_tls is_h2"
    using p1 p2 spell_part_strip [OF that(1), of port] that(2) by auto
  ultimately show ?thesis by auto
qed

lemma spell_part_dash: "CHR ''-'' \<notin> set (spell_part port is_tls is_h2)"
  using port_digits_simps(3) by (simp add: spell_part_def)

lemma parse_spelling:
  assumes "dst_wf d" "s \<in> spellings d"
  shows "parse_dst_info s = Inr d"
proof -
  have app: "di_app_id d \<noteq> []" "CHR ''-'' \<notin> set (di_app_id d)" using assms(1) by (simp_all add: dst_wf_def)
  consider (bare) "s = di_app_id d" "\<not> di_is_tls d" "\<not> di_is_h2 d" "di_port d = default_port False"
    | (part) port where "s = di_app_id d @ CHR ''-'' # spell_part port (di_is_tls d) (di_is_h2 d)"
        "port = Some (di_port d) \<or> port = None \<and> di_port d = default_port (di_is_tls d)"
    using assms(2) by (auto simp: spellings_def split: if_splits)
  then show ?thesis
  proof cases
    case bare
    then show ?thesis using app by (simp add: parse_dst_info_def split_on_none default_port_def)
  next
    case part
    have "parse_port_part (spell_part port (di_is_tls d) (di_is_h2 d)) = Inr (port, di_is_tls d, di_is_h2 d)"
      using part(2) assms(1) by (auto simp: parse_port_part_eq dst_wf_def)
    moreover have "split_on (CHR ''-'') s = [di_app_id d, spell_part port (di_is_tls d) (di_is_h2 d)]"
      by (simp add: part(1) split_on_cons [OF app(2)] split_on_none [OF spell_part_dash])
    ultimately show ?thesis
      using app part(2) by (auto simp: parse_dst_info_def default_port_def)
  qed
qed

lemma parsed_spelling:
  assumes "parse_dst_info s = Inr d"
  shows "dst_wf d \<and> s \<in> spellings d"
proof -
  obtain app parts where sp: "split_on (CHR ''-'') s = app # parts" using split_on_nonempty by (metis neq_Nil_conv)
  note inv = split_on_inv [OF sp]
  have app: "app \<noteq> []" using assms sp by (auto simp: parse_dst_info_def split: if_splits)
  show ?thesis
  proof (cases parts)
    case Nil
    then show ?thesis
      using assms inv app sp by (auto simp: parse_dst_info_def dst_wf_def spellings_def default_port_def)
  next
    case (Cons part rest)
    obtain port is_tls is_h2 where pp: "parse_port_part part = Inr (port, is_tls, is_h2)"
      using assms app by (cases "parse_port_part part") (auto simp: parse_dst_info_def sp Cons)
    then have d: "d = \<lparr> di_app_id = app, di_port = (case port of Some p \<Rightarrow> p | None \<Rightarrow> default_port is_tls),
        di_is_tls = is_tls, di_is_h2 = is_h2 \<rparr>" and rest: "rest = []"
      using assms app unfolding default_port_def by (auto simp: parse_dst_info_def sp Cons split: if_splits)
    note p = pp rest
    obtain r where "s = app @ CHR ''-'' # r" "split_on (CHR ''-'') r = [part]" using inv Cons p(2) by auto
    moreover from this have "r = part" using split_on_inv [of "CHR ''-''" r part "[]"] by simp
    ultimately show ?thesis
      using p inv app unfolding parse_port_part_eq d
      by (cases port) (auto simp: dst_wf_def spellings_def default_port_def)
  qed
qed

text \<open>
  C19. A sub-domain is accepted exactly when it is one of the spellings of a destination, and then it
  names that destination: an application id without dash, a port in its only decimal spelling, at most
  one of the two flags; everything else is refused.
\<close>

theorem dst_info_spellings: "parse_dst_info s = Inr d \<longleftrightarrow> dst_wf d \<and> s \<in> spellings d"
  using parse_spelling parsed_spelling by blast

end
