(* ===== verification/Gateway_Health.thy ===== *)
theory Gateway_Health
  imports Gateway_Select
begin

text \<open>
  Application health polling (\<^verbatim>\<open>gateway/src/proxy/health_check.rs\<close>) and the log sanitizer it uses
  (\<^verbatim>\<open>dstack-types/src/lib.rs\<close>).  The network is an argument: a round is given the polls that landed
  before its deadline, in the order they landed.  Failure counts are 32-bit and the cursor 64-bit words,
  as in the code.  Text is a list of Unicode code points for the sanitizer and a \<open>string\<close> elsewhere.
\<close>

section \<open>Sanitizing text for a log line\<close>

type_synonym code_point = nat

definition is_control_char :: "code_point \<Rightarrow> bool" where
  "is_control_char c = (c < 0x20 \<or> 0x7F \<le> c \<and> c < 0xA0)"

definition is_unsafe_to_log :: "code_point \<Rightarrow> bool" where
  "is_unsafe_to_log c = (is_control_char c \<or> c = 0x2028 \<or> c = 0x2029 \<or> c = 0x200E \<or> c = 0x200F \<or>
    (0x202A \<le> c \<and> c \<le> 0x202E) \<or> (0x2066 \<le> c \<and> c \<le> 0x2069) \<or> c = 0xFEFF)"

definition len_utf8 :: "code_point \<Rightarrow> nat" where
  "len_utf8 c = (if c < 0x80 then 1 else if c < 0x800 then 2 else if c < 0x10000 then 3 else 4)"

definition utf8_len :: "code_point list \<Rightarrow> nat" where
  "utf8_len cs = sum_list (map len_utf8 cs)"

definition code_points :: "string \<Rightarrow> code_point list" where
  "code_points s = map of_char s"

definition clean_char :: "code_point \<Rightarrow> code_point" where
  "clean_char c = (if is_unsafe_to_log c then 0x20 else c)"

definition sanitize_marker :: "code_point list" where
  "sanitize_marker = code_points ''... (truncated)''"

text \<open>The loop: \<open>used\<close> bytes are in the buffer; the flag says whether the loop was left early.\<close>

fun sanitize_loop :: "nat \<Rightarrow> nat \<Rightarrow> code_point list \<Rightarrow> code_point list \<times> bool" where
  "sanitize_loop max_bytes used [] = ([], False)"
| "sanitize_loop max_bytes used (c # cs) =
    (if max_bytes < used + len_utf8 (clean_char c) then ([], True)
     else case sanitize_loop max_bytes (used + len_utf8 (clean_char c)) cs of (rest, truncated) \<Rightarrow> (clean_char c # rest, truncated))"

definition sanitize_for_log :: "code_point list \<Rightarrow> nat \<Rightarrow> code_point list" where
  "sanitize_for_log msg max_bytes =
    (case sanitize_loop max_bytes 0 msg of (cleaned, truncated) \<Rightarrow> if truncated then cleaned @ sanitize_marker else cleaned)"

definition MAX_REASON_BYTES :: nat where "MAX_REASON_BYTES = 512"
definition MAX_NAMED_CONTAINERS :: nat where "MAX_NAMED_CONTAINERS = 8"

definition sanitize :: "string \<Rightarrow> string" where
  "sanitize reason = map char_of (sanitize_for_log (code_points reason) MAX_REASON_BYTES)"

section \<open>One poll\<close>

datatype PollResult = Poll_healthy | Poll_unhealthy string | Poll_unreachable string

record HealthResponse =
  hr_healthy :: bool
  hr_error :: string
  hr_unhealthy :: "(string \<times> string) list"

fun join_with :: "string \<Rightarrow> string list \<Rightarrow> string" where
  "join_with sep [] = []"
| "join_with sep [x] = x"
| "join_with sep (x # y # rest) = x @ sep @ join_with sep (y # rest)"

definition describe_unhealthy :: "HealthResponse \<Rightarrow> string" where
  "describe_unhealthy response =
    (if hr_error response \<noteq> [] then ''agent could not determine app health: '' @ hr_error response
     else if hr_unhealthy response = [] then ''agent reported unhealthy without naming anything''
     else join_with '', '' (map (\<lambda>(name, status). name @ '' is '' @ status) (take MAX_NAMED_CONTAINERS (hr_unhealthy response))) @
       (if MAX_NAMED_CONTAINERS < length (hr_unhealthy response)
        then '' (and '' @ show_nat (length (hr_unhealthy response) - MAX_NAMED_CONTAINERS) @ '' more)'' else []))"

text \<open>What the call gave: no answer in time, an error, or a response.\<close>

definition poll_result :: "string \<Rightarrow> (string + HealthResponse) option \<Rightarrow> PollResult" where
  "poll_result timed_out answer =
    (case answer of
       None \<Rightarrow> Poll_unreachable (sanitize (''health poll timed out after '' @ timed_out))
     | Some (Inl err) \<Rightarrow> Poll_unreachable (sanitize (''health poll failed: '' @ err))
     | Some (Inr response) \<Rightarrow>
        if hr_healthy response then Poll_healthy else Poll_unhealthy (sanitize (describe_unhealthy response)))"

type_synonym failures = "(string, 32 word) btree_map"

definition apply_hysteresis ::
  "PollResult \<Rightarrow> string \<Rightarrow> 32 word \<Rightarrow> failures \<Rightarrow> Observation option \<times> failures" where
  "apply_hysteresis result i failure_threshold failures =
    (case result of
       Poll_healthy \<Rightarrow> (Some \<lparr> ob_state = Healthy, ob_reason = [] \<rparr>, bt_remove i failures)
     | Poll_unhealthy reason \<Rightarrow> (Some \<lparr> ob_state = Unhealthy, ob_reason = reason \<rparr>, bt_remove i failures)
     | Poll_unreachable reason \<Rightarrow>
        (let seen = (case bt_get failures i of None \<Rightarrow> 0 | Some n \<Rightarrow> n) + 1;
             failures' = bt_insert i seen failures
         in if seen < failure_threshold then (None, failures')
            else (Some \<lparr> ob_state = Unhealthy,
                         ob_reason = reason @ '' ('' @ show_nat (unat seen) @ '' consecutive failures)'' \<rparr>, failures')))"

section \<open>A round\<close>

definition select_targets :: "kv_error + Handshakes \<Rightarrow> ('net, 's) ProxyState \<Rightarrow> Target list" where
  "select_targets hs st =
    (let handshakes = (case hs of Inl _ \<Rightarrow> [] | Inr h \<Rightarrow> h)
     in map (\<lambda>info. \<lparr> tg_id = ii_id info, tg_ip = ii_ip info, tg_public_key = ii_public_key info \<rparr>)
          (filter (\<lambda>info. case bt_get handshakes (ii_public_key info) of
                     None \<Rightarrow> True
                   | Some (_, elapsed) \<Rightarrow> elapsed < cfg_handshake_stale (st_config st))
            (filter health_check (bt_values (ps_instances (st_state st))))))"

definition rotate_left :: "nat \<Rightarrow> 'a list \<Rightarrow> 'a list" where
  "rotate_left n xs = drop n xs @ take n xs"

definition round_targets :: "64 word \<Rightarrow> Target list \<Rightarrow> Target list" where
  "round_targets cursor targets =
    (if targets = [] then [] else rotate_left (unat cursor mod length targets) targets)"

definition live_failures :: "Target list \<Rightarrow> failures \<Rightarrow> failures" where
  "live_failures targets failures = bt_retain (\<lambda>i n. i \<in> set (map tg_id targets)) failures"

definition poll_landed ::
  "32 word \<Rightarrow> Target \<times> PollResult \<Rightarrow> failures \<times> ('net, 's) ProxyState \<Rightarrow> failures \<times> ('net, 's) ProxyState" where
  "poll_landed threshold landed fs =
    (case apply_hysteresis (snd landed) (tg_id (fst landed)) threshold (fst fs) of
       (None, failures') \<Rightarrow> (failures', snd fs)
     | (Some observation, failures') \<Rightarrow> (failures', record_instance_health (fst landed) observation (snd fs)))"

text \<open>
  The targets are snapshotted in one state (\<open>targets\<close>), the verdicts applied to whatever state is
  current when they land; the result has the next cursor.
\<close>

definition poll_round ::
  "32 word \<Rightarrow> Target list \<Rightarrow> (Target \<times> PollResult) list \<Rightarrow> 64 word \<Rightarrow> failures \<Rightarrow> ('net, 's) ProxyState
    \<Rightarrow> 64 word \<times> failures \<times> ('net, 's) ProxyState" where
  "poll_round threshold targets landed cursor failures st =
    (if targets = [] then (0, live_failures targets failures, st)
     else (cursor + of_nat (length landed),
           fold (poll_landed threshold) landed (live_failures targets failures, st)))"

section \<open>Demotion\<close>

definition poll_history :: "32 word \<Rightarrow> (string \<times> PollResult) list \<Rightarrow> failures \<Rightarrow> failures" where
  "poll_history threshold = fold (\<lambda>(i, r) failures. snd (apply_hysteresis r i threshold failures))"

fun is_unreachable :: "PollResult \<Rightarrow> bool" where
  "is_unreachable (Poll_unreachable _) = True"
| "is_unreachable _ = False"

text \<open>How many of the last polls of \<open>i\<close> in a row found it unreachable.\<close>

definition unreachable_run :: "string \<Rightarrow> (string \<times> PollResult) list \<Rightarrow> nat" where
  "unreachable_run i history = length (takeWhile is_unreachable (rev (map snd (filter (\<lambda>(j, _). j = i) history))))"

lemma unreachable_run_snoc:
  "unreachable_run i (history @ [(j, r)]) =
    (if j = i then (if is_unreachable r then Suc (unreachable_run i history) else 0) else unreachable_run i history)"
  by (simp add: unreachable_run_def)

lemma unreachable_run_le: "unreachable_run i history \<le> length history"
  unfolding unreachable_run_def by (rule order.trans [OF length_takeWhile_le]) simp

lemma poll_history_count:
  assumes "bt_get failures i = None" "length history < 2 ^ 32"
  shows "bt_get (poll_history threshold history failures) i =
    (if unreachable_run i history = 0 then None else Some (of_nat (unreachable_run i history)))"
  using assms(2)
proof (induction history rule: rev_induct)
  case Nil
  then show ?case using assms(1) by (simp add: poll_history_def unreachable_run_def)
next
  case (snoc p history)
  obtain j r where p: "p = (j, r)" by (cases p)
  show ?case
    using snoc unfolding p
    by (cases r) (auto simp: unreachable_run_snoc poll_history_def apply_hysteresis_def Let_def split: if_splits)
qed

text \<open>
  C25. An agent that answers is believed at once, in either direction; one that does not answer is
  demoted only when the last \<^verbatim>\<open>failure_threshold\<close> polls of it in a row (at least one) went unanswered,
  whatever other instances did in between, and until then it keeps the verdict it has.
\<close>

theorem demotion_needs_consecutive_failures:
  assumes "bt_get failures i = None" "length history < 2 ^ 32 - 1"
  shows "fst (apply_hysteresis result i threshold (poll_history threshold history failures)) =
    (case result of
       Poll_healthy \<Rightarrow> Some \<lparr> ob_state = Healthy, ob_reason = [] \<rparr>
     | Poll_unhealthy reason \<Rightarrow> Some \<lparr> ob_state = Unhealthy, ob_reason = reason \<rparr>
     | Poll_unreachable reason \<Rightarrow>
        let n = Suc (unreachable_run i history)
        in if n < unat threshold then None
           else Some \<lparr> ob_state = Unhealthy, ob_reason = reason @ '' ('' @ show_nat n @ '' consecutive failures)'' \<rparr>)"
proof -
  have "length history < 2 ^ 32" using assms(2) by simp
  note cnt = poll_history_count [OF assms(1) this, of threshold]
  have le: "Suc (unreachable_run i history) < 2 ^ 32"
    using unreachable_run_le [of i history] assms(2) by simp
  then have "unat (of_nat (Suc (unreachable_run i history)) :: 32 word) = Suc (unreachable_run i history)"
    by (simp add: unat_of_nat del: of_nat_Suc)
  moreover have "(case bt_get (poll_history threshold history failures) i of None \<Rightarrow> 0 | Some n \<Rightarrow> n) + 1 =
      (of_nat (Suc (unreachable_run i history)) :: 32 word)"
    by (simp add: cnt)
  ultimately show ?thesis
    by (simp add: apply_hysteresis_def Let_def word_less_nat_alt split: PollResult.split del: of_nat_Suc)
qed

definition demo_history :: "(string \<times> PollResult) list" where
  "demo_history = [(''a'', Poll_unreachable ''x''), (''b'', Poll_healthy), (''a'', Poll_unreachable ''y'')]"

theorem demotion_needs_consecutive_failures_witness:
  "map_option ob_state (fst (apply_hysteresis (Poll_unreachable ''z'') ''a'' 3 (poll_history 3 demo_history []))) = Some Unhealthy \<and>
    fst (apply_hysteresis (Poll_unreachable ''z'') ''a'' 4 (poll_history 4 demo_history [])) = None"
proof -
  have run: "unreachable_run ''a'' demo_history = 2" by (simp add: unreachable_run_def demo_history_def)
  have ok: "bt_get ([] :: failures) ''a'' = None" "length demo_history < 2 ^ 32 - 1"
    by (simp_all add: demo_history_def)
  show ?thesis
    unfolding demotion_needs_consecutive_failures [OF ok] run by simp
qed

section \<open>Coverage of the fleet\<close>

lemma round_targets_rotate: "round_targets cursor targets = rotate (unat cursor) targets"
  by (simp add: round_targets_def rotate_left_def rotate_drop_take)

text \<open>
  A sequence of rounds over an unchanged fleet.  \<open>in_order\<close>: each round's polls landed in the order
  they were started, as they do when polls run one at a time or take equally long.
\<close>

fun in_order :: "32 word \<Rightarrow> Target list \<Rightarrow> (Target \<times> PollResult) list list \<Rightarrow> 64 word \<times> failures \<times> ('net, 's) ProxyState \<Rightarrow> bool" where
  "in_order threshold targets [] s = True"
| "in_order threshold targets (landed # rest) s =
    (map fst landed = take (length landed) (round_targets (fst s) targets) \<and> length landed \<le> length targets \<and> landed \<noteq> [] \<and>
     in_order threshold targets rest (poll_round threshold targets landed (fst s) (fst (snd s)) (snd (snd s))))"

lemma map_upt_add: "map f [0..<m + n] = map f [0..<m] @ map (\<lambda>j. f (m + j)) [0..<n]"
  by (induction n) simp_all

lemma polled_in_rounds:
  assumes "targets \<noteq> []" "in_order threshold targets rounds (cursor, failures, st)"
    "unat cursor + length (concat rounds) < 2 ^ 64"
  shows "map fst (concat rounds) = map (\<lambda>j. targets ! ((unat cursor + j) mod length targets)) [0..<length (concat rounds)]"
  using assms(2,3)
proof (induction rounds arbitrary: cursor failures st)
  case (Cons landed rest)
  obtain failures' st' where r: "poll_round threshold targets landed cursor failures st = (cursor + of_nat (length landed), failures', st')"
    using assms(1) by (cases "fold (poll_landed threshold) landed (live_failures targets failures, st)") (auto simp: poll_round_def)
  have c: "unat (cursor + of_nat (length landed)) = unat cursor + length landed"
    using Cons.prems(2) by (simp add: unat_word_ariths unat_of_nat)
  have k: "map fst landed = take (length landed) (rotate (unat cursor) targets)" "length landed \<le> length targets"
    using Cons.prems(1) by (simp_all add: round_targets_rotate)
  have "map fst landed = map (\<lambda>j. targets ! ((unat cursor + j) mod length targets)) [0..<length landed]"
  proof (rule nth_equalityI)
    fix j assume "j < length (map fst landed)"
    then show "map fst landed ! j = map (\<lambda>j. targets ! ((unat cursor + j) mod length targets)) [0..<length landed] ! j"
      unfolding k(1) using k(2) by (simp add: nth_rotate)
  qed simp
  moreover have "map fst (concat rest) = map (\<lambda>j. targets ! ((unat cursor + length landed + j) mod length targets)) [0..<length (concat rest)]"
    using Cons.IH [of "cursor + of_nat (length landed)" failures' st'] Cons.prems r c by simp
  ultimately show ?case by (simp add: map_upt_add add.assoc)
qed simp

lemma in_order_length: "in_order threshold targets rounds s \<Longrightarrow> length rounds \<le> length (concat rounds)"
proof (induction rounds arbitrary: s)
  case (Cons landed rest)
  obtain c f st where s: "s = (c, f, st)" by (cases s)
  have "length landed \<ge> 1" using Cons.prems by (cases landed) (simp_all add: s)
  then show ?case using Cons.IH Cons.prems unfolding s by fastforce
qed simp

text \<open>
  C24. No instance is starved.  As long as every round gets at least one poll done, in the order they
  were started, as many rounds as there are targets poll every one of them, however small the share of
  the fleet a round manages; the cursor must not wrap around on the way.
\<close>

theorem every_target_is_polled:
  assumes "in_order threshold targets rounds (cursor, failures, st)" "length targets \<le> length rounds"
    "unat cursor + length (concat rounds) < 2 ^ 64"
  shows "set targets \<subseteq> fst ` set (concat rounds)"
proof
  fix t assume "t \<in> set targets"
  then obtain m where m: "m < length targets" "t = targets ! m" by (metis in_set_conv_nth)
  let ?n = "length targets"
  have ne: "targets \<noteq> []" using m by auto
  define j where "j = (m + (?n - unat cursor mod ?n)) mod ?n"
  have "(unat cursor + j) mod ?n = (unat cursor mod ?n + (m + (?n - unat cursor mod ?n))) mod ?n"
    by (simp add: j_def mod_simps)
  also have "unat cursor mod ?n + (m + (?n - unat cursor mod ?n)) = m + ?n"
    using less_imp_le [OF mod_less_divisor [of ?n "unat cursor"]] m(1) by linarith
  also have "(m + ?n) mod ?n = m" using m(1) by simp
  finally have "targets ! ((unat cursor + j) mod ?n) = t" using m(2) by simp
  moreover have "j < length (concat rounds)"
    using m(1) in_order_length [OF assms(1)] assms(2) mod_less_divisor [of ?n] unfolding j_def by (metis le_trans order_less_le_trans length_greater_0_conv ne)
  ultimately have "t \<in> set (map fst (concat rounds))"
    unfolding polled_in_rounds [OF ne assms(1,3)] by force
  then show "t \<in> fst ` set (concat rounds)" by simp
qed

definition demo_target :: "string \<Rightarrow> Target" where
  "demo_target i = \<lparr> tg_id = i, tg_ip = 0x0A000009, tg_public_key = demo_key (CHR ''A'') \<rparr>"

definition demo_fleet :: "Target list" where
  "demo_fleet = map demo_target [''a'', ''b'', ''c'']"

theorem every_target_is_polled_witness:
  "set demo_fleet \<subseteq> fst ` set (concat [[(demo_target ''b'', Poll_healthy), (demo_target ''c'', Poll_unreachable [])],
    [(demo_target ''a'', Poll_healthy)], [(demo_target ''b'', Poll_healthy)]])"
proof -
  have "in_order 3 demo_fleet [[(demo_target ''b'', Poll_healthy), (demo_target ''c'', Poll_unreachable [])],
      [(demo_target ''a'', Poll_healthy)], [(demo_target ''b'', Poll_healthy)]] (1, [], demo_two)"
    by (simp add: demo_fleet_def poll_round_def round_targets_def rotate_left_def drop_Cons' take_Cons')
  from every_target_is_polled [OF this] show ?thesis by (simp add: demo_fleet_def)
qed

text \<open>
  Polls that finish out of order break the rotation.  The cursor moves by the number of polls that
  landed, so a slow instance at the head of the round is not the first of the next one: with three
  instances of which the first does not answer in time, the next round starts at the third.
\<close>

lemma unfinished_poll_not_first_next_round:
  "let cursor = fst (poll_round 3 demo_fleet [(demo_target ''b'', Poll_healthy), (demo_target ''c'', Poll_healthy)] 0 [] demo_two)
   in round_targets 0 demo_fleet = map demo_target [''a'', ''b'', ''c''] \<and>
      round_targets cursor demo_fleet = map demo_target [''c'', ''a'', ''b'']"
  by (simp add: poll_round_def demo_fleet_def round_targets_def rotate_left_def drop_Cons' take_Cons')

section \<open>Which boot a verdict is for\<close>

definition concerns :: "Target \<Rightarrow> string \<Rightarrow> InstanceInfo \<Rightarrow> bool" where
  "concerns t i info = (tg_id t = i \<and> tg_public_key t = ii_public_key info \<and> tg_ip t = ii_ip info)"

definition same_but_health :: "InstanceInfo option \<Rightarrow> InstanceInfo option \<Rightarrow> bool" where
  "same_but_health old new = (case (old, new) of
     (None, None) \<Rightarrow> True
   | (Some a, Some b) \<Rightarrow> \<exists>h. h_gated h = h_gated (ii_health a) \<and> b = a\<lparr> ii_health := h \<rparr>
   | _ \<Rightarrow> False)"

lemma same_but_health_refl: "same_but_health x x"
  by (auto simp: same_but_health_def split: option.split intro!: exI [of _ "ii_health _"])

lemma same_but_health_trans: "same_but_health x y \<Longrightarrow> same_but_health y z \<Longrightarrow> same_but_health x z"
  by (cases x; cases y; cases z) (auto simp: same_but_health_def)

lemma record_health_lookup:
  "instance_of (record_instance_health t ob st) i =
    (if i = tg_id t then map_option (\<lambda>info. snd (apply_observation t ob info)) (instance_of st i) else instance_of st i)"
  unfolding record_instance_health_def instance_of_def [of "snd _"] obs.edit_instances by simp

lemma apply_observation_health:
  "\<exists>h. h_gated h = h_gated (ii_health info) \<and> snd (apply_observation t ob info) = info\<lparr> ii_health := h \<rparr>"
proof (cases "snd (apply_observation t ob info) = info")
  case True
  then show ?thesis by (intro exI [of _ "ii_health info"]) simp
next
  case False
  then have "snd (apply_observation t ob info) = set_health (ob_state ob) info"
    by (auto simp: apply_observation_def split: if_splits)
  then show ?thesis by (intro exI [of _ "observe (ob_state ob) (ii_health info)"]) (simp add: set_health_def observe_def)
qed

lemma record_health_same: "same_but_health (instance_of st i) (instance_of (record_instance_health t ob st) i)"
proof (cases "instance_of st i")
  case (Some info)
  obtain h where "h_gated h = h_gated (ii_health info)" "snd (apply_observation t ob info) = info\<lparr> ii_health := h \<rparr>"
    using apply_observation_health [of info t ob] by blast
  then have "same_but_health (Some info) (Some (snd (apply_observation t ob info)))"
    by (auto simp: same_but_health_def)
  then show ?thesis using Some by (cases "i = tg_id t") (simp_all add: record_health_lookup same_but_health_refl)
next
  case None
  then show ?thesis by (cases "i = tg_id t") (simp_all add: record_health_lookup same_but_health_def)
qed

lemma record_health_other:
  assumes "instance_of st i = Some info" "\<not> concerns t i info"
  shows "instance_of (record_instance_health t ob st) i = Some info"
proof (cases "i = tg_id t")
  case True
  then have "snd (apply_observation t ob info) = info"
    using assms(2) by (auto simp: concerns_def apply_observation_def)
  then show ?thesis using True assms(1) by (simp add: record_health_lookup)
qed (use assms in \<open>simp add: record_health_lookup\<close>)

lemma poll_landed_cases: "snd (poll_landed threshold landed fs) = snd fs \<or>
    (\<exists>ob. snd (poll_landed threshold landed fs) = record_instance_health (fst landed) ob (snd fs))"
  by (auto simp: poll_landed_def split: prod.split option.split)

lemma poll_fold_state:
  "same_but_health (instance_of (snd fs) i) (instance_of (snd (fold (poll_landed threshold) landed fs)) i)"
proof (induction landed arbitrary: fs)
  case (Cons l landed)
  have "same_but_health (instance_of (snd fs) i) (instance_of (snd (poll_landed threshold l fs)) i)"
    using poll_landed_cases [of threshold l fs]
    by (elim disjE exE) (simp_all add: same_but_health_refl record_health_same)
  then show ?case using same_but_health_trans [OF _ Cons.IH] by simp
qed (simp add: same_but_health_refl)

lemma poll_fold_other:
  assumes "instance_of (snd fs) i = Some info" "\<And>l. l \<in> set landed \<Longrightarrow> \<not> concerns (fst l) i info"
  shows "instance_of (snd (fold (poll_landed threshold) landed fs)) i = Some info"
  using assms
proof (induction landed arbitrary: fs)
  case (Cons l landed)
  have "instance_of (snd (poll_landed threshold l fs)) i = Some info"
    using poll_landed_cases [of threshold l fs] record_health_other [OF Cons.prems(1), of "fst l"] Cons.prems
    by (elim disjE exE) simp_all
  then show ?case using Cons by simp
qed simp

lemma poll_fold_state_ok: "state_ok E (snd fs) \<Longrightarrow> state_ok E (snd (fold (poll_landed threshold) landed fs))"
proof (induction landed arbitrary: fs)
  case (Cons l landed)
  have "state_ok E (snd (poll_landed threshold l fs))"
    using poll_landed_cases [of threshold l fs] record_instance_health_ok [OF Cons.prems] Cons.prems
    by (elim disjE exE) simp_all
  then show ?case using Cons.IH by simp
qed simp

text \<open>
  C23. A round changes nothing but health verdicts, and only of the boot it polled: an instance whose
  key or address is not the one that was snapshotted keeps its record untouched, so a CVM that rebooted
  during the round is not judged by its previous boot.  The state invariant is kept.
\<close>

theorem verdict_only_for_polled_boot:
  assumes "state_ok E st"
  shows "let st' = snd (snd (poll_round threshold targets landed cursor failures st))
    in state_ok E st' \<and> (\<forall>i. same_but_health (instance_of st i) (instance_of st' i)) \<and>
      (\<forall>i info. instance_of st i = Some info \<longrightarrow> (\<forall>l \<in> set landed. \<not> concerns (fst l) i info) \<longrightarrow> instance_of st' i = Some info)"
proof (cases "targets = []")
  case True
  then show ?thesis using assms by (simp add: poll_round_def same_but_health_refl)
next
  case False
  let ?fs = "(live_failures targets failures, st)"
  show ?thesis
    using False assms poll_fold_state_ok [of E ?fs threshold landed] poll_fold_state [of ?fs _ threshold landed]
      poll_fold_other [of ?fs _ _ landed threshold]
    by (simp add: poll_round_def Let_def)
qed

theorem verdict_only_for_polled_boot_witness:
  "instance_of (snd (snd (poll_round 3 demo_fleet [(demo_target ''b'', Poll_unhealthy ''down'')] 0 [] demo_two))) ''b'' =
    instance_of demo_two ''b''"
proof -
  have b: "instance_of demo_two ''b'' = Some (demo_info ''b'' (CHR ''B'') 0x0A00000A 1)"
    by (simp add: instance_of_def demo_two_def default_state_def bt_get_def)
  have "\<not> concerns (demo_target ''b'') ''b'' (demo_info ''b'' (CHR ''B'') 0x0A00000A 1)"
    by (simp add: concerns_def demo_target_def demo_info_def)
  then show ?thesis
    using verdict_only_for_polled_boot [OF demo_two_ok, of 3 demo_fleet "[(demo_target ''b'', Poll_unhealthy ''down'')]" 0 "[]"] b
    by (simp add: Let_def)
qed

section \<open>The sanitizer\<close>

lemma clean_char_safe: "\<not> is_unsafe_to_log (clean_char c)"
  by (simp add: clean_char_def is_unsafe_to_log_def is_control_char_def)

lemma utf8_len_simps [simp]:
  "utf8_len [] = 0" "utf8_len (c # cs) = len_utf8 c + utf8_len cs" "utf8_len (as @ bs) = utf8_len as + utf8_len bs"
  by (simp_all add: utf8_len_def)

lemma sanitize_loop_spec:
  assumes "sanitize_loop max_bytes used msg = (cleaned, truncated)" "used \<le> max_bytes"
  shows "cleaned = take (length cleaned) (map clean_char msg) \<and> used + utf8_len cleaned \<le> max_bytes \<and>
    (if truncated then length cleaned < length msg \<and> max_bytes < used + utf8_len (take (Suc (length cleaned)) (map clean_char msg))
     else length cleaned = length msg)"
  using assms
proof (induction msg arbitrary: used cleaned truncated)
  case (Cons c cs)
  show ?case
  proof (cases "max_bytes < used + len_utf8 (clean_char c)")
    case False
    obtain rest t where r: "sanitize_loop max_bytes (used + len_utf8 (clean_char c)) cs = (rest, t)" by fastforce
    then have "cleaned = clean_char c # rest" "truncated = t" using Cons.prems False by simp_all
    then show ?thesis using Cons.IH [OF r] False by (auto split: if_splits)
  qed (use Cons.prems in \<open>auto\<close>)
qed simp

text \<open>
  What reaches the log is bounded and cannot forge lines: control, line-separator and bidirectional
  characters are all replaced, the text keeps at most \<open>max_bytes\<close> bytes of UTF-8 and is the longest prefix
  that fits, cut between characters; the marker is appended exactly when something was cut.
\<close>

theorem sanitize_for_log_bounded:
  "\<exists>k \<le> length msg. sanitize_for_log msg max_bytes =
      take k (map clean_char msg) @ (if k < length msg then sanitize_marker else []) \<and>
    utf8_len (take k (map clean_char msg)) \<le> max_bytes \<and>
    (k = length msg \<or> max_bytes < utf8_len (take (Suc k) (map clean_char msg))) \<and>
    set (sanitize_for_log msg max_bytes) \<subseteq> {c. \<not> is_unsafe_to_log c}"
proof -
  obtain cleaned truncated where l: "sanitize_loop max_bytes 0 msg = (cleaned, truncated)" by fastforce
  note s = sanitize_loop_spec [OF l]
  have m: "set sanitize_marker \<subseteq> {c. \<not> is_unsafe_to_log c}"
    by (simp add: sanitize_marker_def code_points_def is_unsafe_to_log_def is_control_char_def)
  have "set (take k (map clean_char msg)) \<subseteq> {c. \<not> is_unsafe_to_log c}" for k
    using set_take_subset [of k "map clean_char msg"] clean_char_safe by auto
  then have "set cleaned \<subseteq> {c. \<not> is_unsafe_to_log c}" using s by (metis zero_le)
  then show ?thesis
    using s m by (intro exI [of _ "length cleaned"]) (auto simp: sanitize_for_log_def l split: if_splits)
qed

end
