(* ===== verification/Step_System.thy ===== *)
theory Step_System
  imports Main
begin

text \<open>
  Invariants of step relations and of event handlers, stated once and used by every state machine of the
  development: a predicate that holds initially and is kept by each step holds in every reachable state,
  and one that each handled event keeps is kept by any sequence of events.
\<close>

locale step_system =
  fixes step :: "'s \<Rightarrow> 's \<Rightarrow> bool" and start :: "'s \<Rightarrow> bool" and inv :: "'s \<Rightarrow> bool"
  assumes start_inv: "start s \<Longrightarrow> inv s"
    and step_inv: "step s t \<Longrightarrow> inv s \<Longrightarrow> inv t"
begin

lemma steps_inv: "step\<^sup>*\<^sup>* s t \<Longrightarrow> inv s \<Longrightarrow> inv t"
  by (induction rule: rtranclp_induct) (auto intro: step_inv)

lemma reachable_inv: "start s \<Longrightarrow> step\<^sup>*\<^sup>* s t \<Longrightarrow> inv t"
  using steps_inv start_inv by blast

end

locale event_system =
  fixes handle :: "'e \<Rightarrow> 's \<Rightarrow> 's" and allowed :: "'e \<Rightarrow> bool" and inv :: "'s \<Rightarrow> bool"
  assumes handle_inv: "allowed e \<Longrightarrow> inv s \<Longrightarrow> inv (handle e s)"
begin

lemma run_inv: "list_all allowed es \<Longrightarrow> inv s \<Longrightarrow> inv (fold handle es s)"
  by (induction es arbitrary: s) (simp_all add: handle_inv)

end

end
