(* ===== verification/Gateway_Worker.thy ===== *)
theory Gateway_Worker
  imports Step_System "HOL-Library.Word"
begin

text \<open>
  Three small machines of the gateway.  The worker that applies WireGuard configurations
  (\<^verbatim>\<open>main_service/wg_apply.rs\<close> with \<^verbatim>\<open>request_wg_apply\<close> and \<^verbatim>\<open>reconfigure_wg\<close> of \<^verbatim>\<open>main_service.rs\<close>), as a step
  relation in which routing changes, requests and the worker interleave; the idle watchdog of the relays
  (\<^verbatim>\<open>proxy/idle.rs\<close>); the balancer that spreads accepted connections over the cores (\<^verbatim>\<open>proxy/balance.rs\<close>).
\<close>

section \<open>Applying the WireGuard configuration\<close>

text \<open>
  A configuration is an opaque value \<open>'c\<close>.  \<open>ws_owed\<close> counts the operations that have changed the
  routing table, released its lock and not yet sent their request.
\<close>

datatype 'c phase = Loop_top | Batching | Consuming | Applying | Rendered 'c

record 'c wg_sys =
  ws_current :: 'c
  ws_applied :: "'c option"
  ws_chan :: bool
  ws_owed :: nat
  ws_phase :: "'c phase"
  ws_backoff :: "nat option"
  ws_stopped :: bool

definition BATCH_WINDOW :: nat where "BATCH_WINDOW = 25"
definition RETRY_DELAY :: nat where "RETRY_DELAY = 1000"
definition MAX_RETRY_DELAY :: nat where "MAX_RETRY_DELAY = 30000"

definition next_backoff :: "nat \<Rightarrow> nat \<Rightarrow> nat option \<Rightarrow> nat" where
  "next_backoff retry_delay max_retry_delay backoff =
    (case backoff of None \<Rightarrow> retry_delay | Some d \<Rightarrow> min (d * 2) max_retry_delay)"

text \<open>One step of the worker; \<open>ok\<close> is whether writing and applying the file succeeds.\<close>

definition worker_step :: "nat \<Rightarrow> nat \<Rightarrow> bool \<Rightarrow> 'c wg_sys \<Rightarrow> 'c wg_sys" where
  "worker_step retry_delay max_retry_delay ok s =
    (case ws_phase s of
       Loop_top \<Rightarrow>
         (case ws_backoff s of
            Some delay \<Rightarrow> s\<lparr> ws_phase := Consuming \<rparr>
          | None \<Rightarrow> if ws_chan s then s\<lparr> ws_chan := False, ws_phase := Batching \<rparr> else s)
     | Batching \<Rightarrow> s\<lparr> ws_phase := Consuming \<rparr>
     | Consuming \<Rightarrow> s\<lparr> ws_chan := False, ws_phase := Applying \<rparr>
     | Applying \<Rightarrow>
         if ws_stopped s then s\<lparr> ws_backoff := None, ws_phase := Loop_top \<rparr>
         else s\<lparr> ws_phase := Rendered (ws_current s) \<rparr>
     | Rendered c \<Rightarrow>
         if ok then s\<lparr> ws_applied := Some c, ws_backoff := None, ws_phase := Loop_top \<rparr>
         else s\<lparr> ws_backoff := Some (next_backoff retry_delay max_retry_delay (ws_backoff s)), ws_phase := Loop_top \<rparr>)"

inductive wg_step :: "nat \<Rightarrow> nat \<Rightarrow> 'c wg_sys \<Rightarrow> 'c wg_sys \<Rightarrow> bool" for rd mx where
  change: "wg_step rd mx s (s\<lparr> ws_current := c, ws_owed := Suc (ws_owed s) \<rparr>)"
| request: "ws_owed s = Suc n \<Longrightarrow> wg_step rd mx s (s\<lparr> ws_owed := n, ws_chan := True \<rparr>)"
| work: "wg_step rd mx s (worker_step rd mx ok s)"
| stop: "wg_step rd mx s (s\<lparr> ws_stopped := True \<rparr>)"

inductive_cases wg_stepE: "wg_step rd mx s t"

text \<open>At startup nothing is applied and the first request is about to be sent.\<close>

definition wg_start :: "'c wg_sys \<Rightarrow> bool" where
  "wg_start s = (\<exists>c. s = \<lparr> ws_current = c, ws_applied = None, ws_chan = False, ws_owed = 1,
    ws_phase = Loop_top, ws_backoff = None, ws_stopped = False \<rparr>)"

definition quiescent :: "'c wg_sys \<Rightarrow> bool" where
  "quiescent s = (\<not> ws_chan s \<and> ws_owed s = 0 \<and> ws_phase s = Loop_top \<and> ws_backoff s = None)"

definition wg_inv :: "nat \<Rightarrow> nat \<Rightarrow> 'c wg_sys \<Rightarrow> bool" where
  "wg_inv rd mx s =
    ((ws_stopped s \<or> ws_applied s = Some (ws_current s) \<or> ws_chan s \<or> 0 < ws_owed s \<or> ws_phase s = Rendered (ws_current s) \<or>
      ws_phase s \<in> {Batching, Consuming, Applying} \<or> ws_phase s = Loop_top \<and> ws_backoff s \<noteq> None) \<and>
     (\<forall>c. ws_phase s = Rendered c \<longrightarrow> c = ws_current s \<or> ws_chan s \<or> 0 < ws_owed s) \<and>
     (\<forall>d. ws_backoff s = Some d \<longrightarrow> d \<le> max rd mx))"

lemma next_backoff_le: "(\<forall>d. b = Some d \<longrightarrow> d \<le> max rd mx) \<Longrightarrow> next_backoff rd mx b \<le> max rd mx"
  by (auto simp: next_backoff_def split: option.split)

lemma worker_step_inv:
  assumes "wg_inv rd mx s"
  shows "wg_inv rd mx (worker_step rd mx ok s)"
  using assms next_backoff_le [of "ws_backoff s" rd mx]
  by (auto simp: wg_inv_def worker_step_def split: phase.split option.split)

interpretation wg: step_system "wg_step rd mx" wg_start "wg_inv rd mx"
proof
  show "wg_inv rd mx s" if "wg_start s" for s :: "'a wg_sys"
    using that by (auto simp: wg_start_def wg_inv_def)
  show "wg_inv rd mx t" if "wg_step rd mx s t" "wg_inv rd mx s" for s t :: "'a wg_sys"
    using that by (cases rule: wg_step.cases) (auto simp: worker_step_inv, auto simp: wg_inv_def)
qed

text \<open>
  C5. No routing change is lost.  Whatever the interleaving of changes, requests, failed and
  successful applies, when nothing is left to do (no request waiting or owed, the worker blocked on its
  channel) the interface has the current configuration, unless applying was stopped for shutdown.
  The delay between retries never exceeds the larger of the two configured bounds.
\<close>

theorem wg_apply_no_lost_update:
  assumes "wg_start s0" "(wg_step rd mx)\<^sup>*\<^sup>* s0 s"
  shows "(quiescent s \<longrightarrow> ws_stopped s \<or> ws_applied s = Some (ws_current s)) \<and>
    (\<forall>d. ws_backoff s = Some d \<longrightarrow> d \<le> max rd mx)"
  using wg.reachable_inv [OF assms] by (auto simp: wg_inv_def quiescent_def)

definition demo_worker :: "nat wg_sys" where
  "demo_worker = \<lparr> ws_current = 5, ws_applied = None, ws_chan = False, ws_owed = 1,
    ws_phase = Loop_top, ws_backoff = None, ws_stopped = False \<rparr>"

definition demo_worker_done :: "nat wg_sys" where
  "demo_worker_done = ((worker_step RETRY_DELAY MAX_RETRY_DELAY True) ^^ 5) (demo_worker\<lparr> ws_owed := 0, ws_chan := True \<rparr>)"

lemma work_steps: "(wg_step rd mx)\<^sup>*\<^sup>* s ((worker_step rd mx ok ^^ n) s)"
  by (induction n) (auto intro: rtranclp.rtrancl_into_rtrancl wg_step.work)

theorem wg_apply_no_lost_update_witness:
  "quiescent demo_worker_done \<and> ws_applied demo_worker_done = Some (ws_current demo_worker_done)"
proof -
  have "wg_start demo_worker" by (simp add: wg_start_def demo_worker_def)
  moreover have "wg_step RETRY_DELAY MAX_RETRY_DELAY demo_worker (demo_worker\<lparr> ws_owed := 0, ws_chan := True \<rparr>)"
    by (rule wg_step.request) (simp add: demo_worker_def)
  then have "(wg_step RETRY_DELAY MAX_RETRY_DELAY)\<^sup>*\<^sup>* demo_worker demo_worker_done"
    unfolding demo_worker_done_def by (rule converse_rtranclp_into_rtranclp [OF _ work_steps])
  moreover have "quiescent demo_worker_done \<and> \<not> ws_stopped demo_worker_done"
    by (simp add: demo_worker_done_def demo_worker_def quiescent_def eval_nat_numeral worker_step_def)
  ultimately show ?thesis using wg_apply_no_lost_update by blast
qed

text \<open>The number of worker steps left until it blocks with nothing to do, when its applies succeed.\<close>

definition rank :: "'c wg_sys \<Rightarrow> nat" where
  "rank s = (let again = (if ws_chan s then 5 else 0) in
    case ws_phase s of
      Loop_top \<Rightarrow> if ws_backoff s = None then again else 4
    | Batching \<Rightarrow> 4
    | Consuming \<Rightarrow> 3
    | Applying \<Rightarrow> 2 + again
    | Rendered _ \<Rightarrow> 1 + again)"

lemma worker_step_frame:
  "ws_owed (worker_step rd mx ok s) = ws_owed s" "ws_stopped (worker_step rd mx ok s) = ws_stopped s"
  "ws_current (worker_step rd mx ok s) = ws_current s"
  by (simp_all add: worker_step_def split: phase.split option.split)

lemma worker_step_rank: "\<not> ws_stopped s \<Longrightarrow> rank (worker_step rd mx True s) = rank s - 1"
  by (simp add: rank_def worker_step_def Let_def split: phase.split option.split)

lemma worker_steps_rank:
  "\<not> ws_stopped s \<Longrightarrow> rank ((worker_step rd mx True ^^ n) s) = rank s - n \<and> \<not> ws_stopped ((worker_step rd mx True ^^ n) s)"
  by (induction n) (simp_all add: worker_step_rank worker_step_frame)

lemma worker_steps_frame:
  "ws_owed ((worker_step rd mx ok ^^ n) s) = ws_owed s" "ws_current ((worker_step rd mx ok ^^ n) s) = ws_current s"
  by (induction n) (simp_all add: worker_step_frame)

lemma rank_0: "rank s = 0 \<Longrightarrow> ws_phase s = Loop_top \<and> ws_backoff s = None \<and> \<not> ws_chan s"
  by (auto simp: rank_def Let_def split: phase.splits if_splits)

text \<open>
  C8. The interface converges.  From any reachable state, once no operation owes a request and applying
  works again, at most seven steps of the worker bring the current configuration to the interface and
  leave nothing to do; no further event is needed for that, also after failures.
\<close>

theorem wg_apply_converges:
  assumes "wg_start s0" "(wg_step rd mx)\<^sup>*\<^sup>* s0 s" "ws_owed s = 0" "\<not> ws_stopped s" "7 \<le> n"
  shows "quiescent ((worker_step rd mx True ^^ n) s) \<and>
    ws_applied ((worker_step rd mx True ^^ n) s) = Some (ws_current s)"
proof -
  let ?t = "(worker_step rd mx True ^^ n) s"
  have "rank s \<le> 7" by (simp add: rank_def Let_def split: phase.split)
  then have "rank ?t = 0" "\<not> ws_stopped ?t" using worker_steps_rank [OF assms(4)] assms(5) by simp_all
  moreover have "wg_inv rd mx ?t"
    using wg.reachable_inv [OF assms(1)] rtranclp_trans [OF assms(2) work_steps] by blast
  ultimately show ?thesis
    using rank_0 [of ?t] assms(3) by (auto simp: quiescent_def wg_inv_def worker_steps_frame)
qed

definition demo_worker_failed :: "nat wg_sys" where
  "demo_worker_failed = worker_step RETRY_DELAY MAX_RETRY_DELAY False
    ((worker_step RETRY_DELAY MAX_RETRY_DELAY True ^^ 4) (demo_worker\<lparr> ws_owed := 0, ws_chan := True \<rparr>))"

theorem wg_apply_converges_witness:
  "ws_backoff demo_worker_failed = Some 1000 \<and> ws_applied demo_worker_failed = None \<and>
    ws_applied ((worker_step RETRY_DELAY MAX_RETRY_DELAY True ^^ 7) demo_worker_failed) = Some 5"
proof -
  have st: "ws_backoff demo_worker_failed = Some 1000" "ws_applied demo_worker_failed = None" "ws_owed demo_worker_failed = 0"
    "\<not> ws_stopped demo_worker_failed" "ws_current demo_worker_failed = 5"
    by (simp_all add: demo_worker_failed_def demo_worker_def eval_nat_numeral worker_step_def next_backoff_def RETRY_DELAY_def)
  have "wg_start demo_worker" by (simp add: wg_start_def demo_worker_def)
  moreover have "wg_step RETRY_DELAY MAX_RETRY_DELAY demo_worker (demo_worker\<lparr> ws_owed := 0, ws_chan := True \<rparr>)"
    by (rule wg_step.request) (simp add: demo_worker_def)
  then have "(wg_step RETRY_DELAY MAX_RETRY_DELAY)\<^sup>*\<^sup>* demo_worker demo_worker_failed"
    unfolding demo_worker_failed_def
    by (rule rtranclp.rtrancl_into_rtrancl [OF converse_rtranclp_into_rtranclp [OF _ work_steps] wg_step.work])
  ultimately show ?thesis using wg_apply_converges [of demo_worker _ _ demo_worker_failed 7] st by simp
qed

section \<open>The idle watchdog\<close>

text \<open>Durations are nanoseconds; \<^verbatim>\<open>as_millis\<close> rounds down.\<close>

record IdleWatchdog =
  wd_tick :: nat
  wd_idle_ticks :: "32 word"
  wd_max_idle_ticks :: "32 word"
  wd_last_seen :: "64 word"

definition as_millis :: "nat \<Rightarrow> nat" where
  "as_millis d = d div 1000000"

definition watchdog_tick :: "nat \<Rightarrow> nat" where
  "watchdog_tick idle = max (idle div 4) (500 * 1000000)"

definition watchdog_new :: "nat \<Rightarrow> IdleWatchdog" where
  "watchdog_new idle =
    \<lparr> wd_tick = watchdog_tick idle, wd_idle_ticks = 0,
      wd_max_idle_ticks = of_nat (max (as_millis idle div as_millis (watchdog_tick idle)) 1), wd_last_seen = 0 \<rparr>"

definition stalled :: "64 word \<Rightarrow> IdleWatchdog \<Rightarrow> bool \<times> IdleWatchdog" where
  "stalled progress w =
    (if progress = wd_last_seen w
     then (wd_max_idle_ticks w \<le> wd_idle_ticks w + 1, w\<lparr> wd_idle_ticks := wd_idle_ticks w + 1 \<rparr>)
     else (False, w\<lparr> wd_idle_ticks := 0, wd_last_seen := progress \<rparr>))"

text \<open>
  \<^verbatim>\<open>wait_until_stalled\<close> on a list of samples: the number of samples taken when it returns, or \<open>None\<close>
  when it has not returned by the end of the list.
\<close>

fun wait_until_stalled :: "64 word list \<Rightarrow> IdleWatchdog \<Rightarrow> nat option" where
  "wait_until_stalled [] w = None"
| "wait_until_stalled (p # ps) w =
    (if fst (stalled p w) then Some 1 else map_option Suc (wait_until_stalled ps (snd (stalled p w))))"

lemma watchdog_ticks:
  assumes "2000 * 1000000 \<le> idle"
  shows "wd_max_idle_ticks (watchdog_new idle) = 4" "wd_tick (watchdog_new idle) = idle div 4"
proof -
  define q where "q = idle div 4 div 1000000"
  have q: "500 \<le> q" using div_le_mono [OF assms, of 4000000] by (simp add: q_def div_mult2_eq [symmetric])
  have "as_millis idle = idle div 1000000" by (simp add: as_millis_def)
  moreover have "4 * q \<le> idle div 1000000" "idle div 1000000 < 4 * q + 4"
    unfolding q_def by linarith+
  ultimately have "as_millis idle div q = 4"
    using q by (intro div_nat_eqI) auto
  moreover have "watchdog_tick idle = idle div 4" using div_le_mono [OF assms, of 4] by (simp add: watchdog_tick_def max_def)
  ultimately show "wd_max_idle_ticks (watchdog_new idle) = 4" "wd_tick (watchdog_new idle) = idle div 4"
    by (simp_all add: watchdog_new_def as_millis_def q_def)
qed

text \<open>How many of the last samples in a row showed no progress; the counter starts at zero.\<close>

definition quiet_samples :: "64 word list \<Rightarrow> nat" where
  "quiet_samples ps = length (takeWhile (\<lambda>x. x = last (0 # ps)) (rev (0 # ps))) - 1"

lemma quiet_samples_Nil [simp]: "quiet_samples [] = 0"
  by (simp add: quiet_samples_def)

lemma quiet_samples_snoc: "quiet_samples (ps @ [p]) = (if p = last (0 # ps) then Suc (quiet_samples ps) else 0)"
proof -
  obtain x xs where r: "rev (0 # ps) = x # xs" by (cases "rev (0 # ps)") auto
  then have x: "x = last (0 # ps)" by (metis last_rev list.sel(1) rev_rev_ident hd_rev)
  show ?thesis
    using r x unfolding quiet_samples_def by (auto simp: rev.simps)
qed

lemma quiet_samples_le: "quiet_samples ps \<le> length ps"
  by (induction ps rule: rev_induct) (simp_all add: quiet_samples_snoc)

definition sampled :: "64 word list \<Rightarrow> IdleWatchdog \<Rightarrow> IdleWatchdog" where
  "sampled ps w = fold (\<lambda>p w. snd (stalled p w)) ps w"

lemma sampled_state:
  "sampled ps (watchdog_new idle) =
    (watchdog_new idle)\<lparr> wd_idle_ticks := of_nat (quiet_samples ps), wd_last_seen := last (0 # ps) \<rparr>"
proof (induction ps rule: rev_induct)
  case Nil
  then show ?case by (simp add: sampled_def watchdog_new_def)
next
  case (snoc p ps)
  have "sampled (ps @ [p]) w = snd (stalled p (sampled ps w))" for w by (simp add: sampled_def)
  then show ?case
    using snoc by (simp add: stalled_def quiet_samples_snoc del: last.simps) (simp add: watchdog_new_def)
qed

lemma wait_first:
  "wait_until_stalled ps w = Some n \<longleftrightarrow>
    (\<exists>k < length ps. n = Suc k \<and> fst (stalled (ps ! k) (sampled (take k ps) w)) \<and>
      (\<forall>j < k. \<not> fst (stalled (ps ! j) (sampled (take j ps) w))))"
proof (induction ps arbitrary: w n)
  case (Cons p ps)
  have s: "sampled (p # qs) w = sampled qs (snd (stalled p w))" for qs by (simp add: sampled_def)
  show ?case
  proof (cases "fst (stalled p w)")
    case True
    then show ?thesis by (auto simp: sampled_def less_Suc_eq_0_disj intro!: exI [of _ 0])
  next
    case False
    then show ?thesis
      by (cases n) (simp_all add: Cons.IH sampled_def [of "[]"] s Ex_less_Suc2 All_less_Suc2)
  qed
qed simp

lemma stalled_after:
  assumes "k < length ps" "length ps < 2 ^ 32" "unat (wd_max_idle_ticks (watchdog_new idle)) = m" "0 < m"
  shows "fst (stalled (ps ! k) (sampled (take k ps) (watchdog_new idle))) \<longleftrightarrow> m \<le> quiet_samples (take (Suc k) ps)"
proof -
  have "quiet_samples (take k ps) < 2 ^ 32 - 1" using quiet_samples_le [of "take k ps"] assms(1,2) by simp
  then have "unat (of_nat (quiet_samples (take k ps)) + 1 :: 32 word) = Suc (quiet_samples (take k ps))"
    by (simp add: unat_word_ariths unat_of_nat)
  then show ?thesis
    using assms by (simp add: take_Suc_conv_app_nth quiet_samples_snoc sampled_state stalled_def word_le_nat_alt del: last.simps)
qed

text \<open>
  C40. For a window of at least two seconds the watchdog samples four times per window and fires exactly
  at the first sample that completes four samples in a row without progress: never while either
  direction moves between samples, and always once neither does.
\<close>

theorem idle_watchdog_fires:
  assumes "2000 * 1000000 \<le> idle" "length samples < 2 ^ 32"
  shows "(wait_until_stalled samples (watchdog_new idle) = Some n \<longleftrightarrow>
      n \<le> length samples \<and> 4 \<le> quiet_samples (take n samples) \<and> (\<forall>k < n. quiet_samples (take k samples) < 4)) \<and>
    4 * wd_tick (watchdog_new idle) \<le> idle \<and> idle < 4 * wd_tick (watchdog_new idle) + 4"
proof -
  note w = watchdog_ticks [OF assms(1)]
  have m: "unat (wd_max_idle_ticks (watchdog_new idle)) = 4" using w(1) by simp
  note sa = stalled_after [OF _ assms(2) m]
  have "wait_until_stalled samples (watchdog_new idle) = Some n \<longleftrightarrow>
      (\<exists>k < length samples. n = Suc k \<and> 4 \<le> quiet_samples (take (Suc k) samples) \<and>
        (\<forall>j < k. \<not> 4 \<le> quiet_samples (take (Suc j) samples)))"
    unfolding wait_first by (rule ex_cong1) (auto simp: sa)
  also have "\<dots> \<longleftrightarrow> n \<le> length samples \<and> 4 \<le> quiet_samples (take n samples) \<and>
      (\<forall>k < n. quiet_samples (take k samples) < 4)"
    by (cases n) (auto simp: less_Suc_eq_0_disj)
  finally show ?thesis using w(2) by simp
qed

theorem idle_watchdog_fires_witness:
  "wait_until_stalled [7, 7, 9, 9, 9, 9, 9] (watchdog_new (4000 * 1000000)) = Some 7"
proof -
  have "quiet_samples (take k [7, 7, 9, 9, 9, 9, 9]) < 4" if "k < 7" for k
  proof -
    have "k \<in> {0, 1, 2, 3, 4, 5, 6}" using that by auto
    then show ?thesis by (auto simp: quiet_samples_def)
  qed
  moreover have "4 \<le> quiet_samples (take 7 [7, 7, 9, 9, 9, 9, 9])" by (simp add: quiet_samples_def)
  ultimately show ?thesis
    using idle_watchdog_fires [of "4000 * 1000000" "[7, 7, 9, 9, 9, 9, 9]" 7] by simp
qed

text \<open>
  With a window below two seconds the tick is half a second and the number of ticks is rounded
  down: a window of 999 milliseconds is declared over after a single quiet sample, half a second
  after the last progress was seen.
\<close>

lemma idle_watchdog_short_window:
  "wd_tick (watchdog_new (999 * 1000000)) = 500 * 1000000 \<and>
    wait_until_stalled [3, 3] (watchdog_new (999 * 1000000)) = Some 2"
  by (simp add: watchdog_new_def watchdog_tick_def as_millis_def stalled_def)

section \<open>Spreading connections over the cores\<close>

text \<open>
  The connection counts are a list indexed by core.  What the operating system and the channel answer
  (\<open>into_ok\<close>, \<open>send\<close>, \<open>from_ok\<close>) are arguments; a slot that is dropped gives its count back.
\<close>

definition HANDOFF_QUEUE :: nat where "HANDOFF_QUEUE = 1024"

datatype send_result = Sent | Queue_full | Queue_closed

datatype placement = Stays | Handed nat | Dropped

definition claim_slot :: "nat \<Rightarrow> nat list \<Rightarrow> nat list" where
  "claim_slot core counts = counts[core := Suc (counts ! core)]"

definition drop_slot :: "nat \<Rightarrow> nat list \<Rightarrow> nat list" where
  "drop_slot core counts = counts[core := counts ! core - 1]"

definition migration_threshold :: "nat \<Rightarrow> nat" where
  "migration_threshold least = least + 1 + least div 4"

fun least_loaded :: "nat list \<Rightarrow> nat \<Rightarrow> nat \<times> nat \<Rightarrow> nat \<times> nat" where
  "least_loaded [] i best = best"
| "least_loaded (v # vs) i best = least_loaded vs (Suc i) (if v < snd best then (i, v) else best)"

definition balance_target :: "nat list \<Rightarrow> nat \<Rightarrow> nat" where
  "balance_target counts me =
    (if length counts < 2 then me
     else let best = least_loaded counts 0 (me, counts ! me)
          in if migration_threshold (snd best) \<le> counts ! me then fst best else me)"

definition place :: "bool \<Rightarrow> send_result \<Rightarrow> bool \<Rightarrow> nat \<Rightarrow> nat list \<Rightarrow> placement \<times> nat list" where
  "place into_ok send from_ok me counts =
    (let target = balance_target counts me
     in if target = me then (Stays, claim_slot me counts)
        else if \<not> into_ok then (Dropped, counts)
        else case send of
               Sent \<Rightarrow> (Handed target, claim_slot target counts)
             | _ \<Rightarrow>
                (let counts1 = drop_slot target (claim_slot target counts)
                 in if from_ok then (Stays, claim_slot me counts1) else (Dropped, counts1)))"

lemma least_loaded_spec:
  assumes "drop i counts = vs" "fst best < length counts" "snd best = counts ! fst best" "i \<le> length counts"
    "\<And>j. j < i \<Longrightarrow> snd best \<le> counts ! j"
  shows "fst (least_loaded vs i best) < length counts \<and>
    snd (least_loaded vs i best) = counts ! fst (least_loaded vs i best) \<and>
    (\<forall>j < length counts. snd (least_loaded vs i best) \<le> counts ! j)"
  using assms
proof (induction vs arbitrary: i best)
  case Nil
  then show ?case by auto
next
  case (Cons v vs)
  have i: "i < length counts" "counts ! i = v" "drop (Suc i) counts = vs"
    using Cons.prems(1) by (metis drop_all not_le list.distinct(1), metis nth_via_drop, metis drop_Suc list.sel(3) tl_drop)
  let ?b = "if v < snd best then (i, v) else best"
  have "\<And>j. j < Suc i \<Longrightarrow> snd ?b \<le> counts ! j"
    using Cons.prems(5) i(2) by (fastforce simp: less_Suc_eq)
  then show ?case using Cons.IH [OF i(3), of ?b] Cons.prems i by auto
qed

text \<open>
  C35. Every accepted connection is accounted to exactly one core or closed for a reported socket
  error.  It is handed away only to a least loaded core, when this core is ahead of it by more than a
  quarter, and the handover never makes the receiver busier than the giver; a full or closed queue
  keeps the connection here with the receiver's count restored.
\<close>

theorem balancer_places_connection:
  assumes "me < length counts"
  shows "case place into_ok send from_ok me counts of
      (Stays, counts') \<Rightarrow> counts' = counts[me := Suc (counts ! me)]
    | (Handed t, counts') \<Rightarrow> send = Sent \<and> t < length counts \<and> t \<noteq> me \<and> counts ! t = Min (set counts) \<and>
        counts ! t + counts ! t div 4 < counts ! me \<and> counts' = counts[t := Suc (counts ! t)] \<and> counts' ! t \<le> counts' ! me
    | (Dropped, counts') \<Rightarrow> counts' = counts \<and> \<not> (into_ok \<and> from_ok)"
proof -
  define best where "best = least_loaded counts 0 (me, counts ! me)"
  have b: "fst best < length counts" "snd best = counts ! fst best" "\<And>j. j < length counts \<Longrightarrow> snd best \<le> counts ! j"
    using least_loaded_spec [of 0 counts counts "(me, counts ! me)"] assms by (auto simp: best_def)
  have "Min (set counts) = counts ! fst best"
    using b by (intro Min_eqI) (auto simp: in_set_conv_nth)
  moreover have "balance_target counts me = me \<or>
      balance_target counts me = fst best \<and> migration_threshold (counts ! fst best) \<le> counts ! me"
    using b(2) by (simp add: balance_target_def Let_def best_def [symmetric])
  ultimately show ?thesis
    using assms b(1) by (auto simp: place_def Let_def drop_slot_def claim_slot_def migration_threshold_def split: send_result.split)
qed

theorem balancer_places_connection_witness:
  "case place True Sent True 0 [5, 2, 3] of (Handed t, counts') \<Rightarrow> t = 1 \<and> counts' = [5, 3, 3] | _ \<Rightarrow> False"
  using balancer_places_connection [of 0 "[5, 2, 3]", where into_ok = True and send = Sent and from_ok = True]
  by (simp add: place_def balance_target_def migration_threshold_def claim_slot_def)

end
