(* ===== verification/Gateway_Run.thy ===== *)
theory Gateway_Run
  imports Gateway_Route Gateway_Health Gateway_Worker
begin

text \<open>
  The gateway as a whole.  The operations of the other theories become the events of one system, in any
  order and any number: registrations, operator requests, recycling, polls, policy fetches, connections,
  changes of the replicated store by other nodes, and reloads.  Shown over arbitrary runs: the tables
  stay well formed, connections only go where gate and port policy allow, every change of the WireGuard
  peers is handed to the apply worker, and between two reloads the gateway implements an abstract
  registry of instances.
\<close>

section \<open>Events\<close>

text \<open>
  An operation that gives up the routing lock in the middle is represented by its last locked part, with
  what it computed before as an arbitrary argument: the stale list of a recycling round, the policy a
  fetch has read, the observation of a poll.
\<close>

datatype ('s, 'att) gw_event =
    Register system_time "'att RpcHandler" RegisterCvmRequest
  | Remove_cvm string
  | Set_port_policy string "RpcPortPolicy option"
  | Clear_port_policy string
  | Set_ready "kv_error + Handshakes" string "bool option"
  | Recycle_stale "(string \<times> system_time) list"
  | Policy_fetched string PortPolicy
  | Polled Target Observation
  | Connect select_args "(nat \<times> bool) list" "64 word" string "16 word"
  | Disconnect counter_ref
  | Apply_taken
  | Store_changed "'s KvStore"
  | Reload system_time

definition reload_event :: "('net, 's) gw_env \<Rightarrow> system_time \<Rightarrow> ('net, 's) Proxy \<Rightarrow> ('net, 's) Proxy" where
  "reload_event E now p =
    (case on_state (reload_instances_from_kv_store E now) p of
       (changed, p1) \<Rightarrow> if changed then request_wg_apply p1 else p1)"

fun gw_handle ::
  "('net, 's) gw_env \<Rightarrow> 'att rpc_ext \<Rightarrow> ('s, 'att) gw_event \<Rightarrow> ('net, 's) Proxy \<Rightarrow> ('net, 's) Proxy" where
  "gw_handle E X (Register now h rq) p = snd (register_cvm E X now h rq p)"
| "gw_handle E X (Remove_cvm i) p = snd (admin_remove_cvm E i p)"
| "gw_handle E X (Set_port_policy i policy) p = snd (on_state (set_instance_port_policy E i policy) p)"
| "gw_handle E X (Clear_port_policy i) p = snd (on_state (clear_admin_port_policy E i) p)"
| "gw_handle E X (Set_ready hs i ready) p = snd (on_state (set_instance_ready E hs i ready) p)"
| "gw_handle E X (Recycle_stale stale) p = snd (recycle_apply E stale p)"
| "gw_handle E X (Policy_fetched i policy) p = p\<lparr> px_state := update_instance_port_policy E i policy (px_state p) \<rparr>"
| "gw_handle E X (Polled target ob) p = p\<lparr> px_state := record_instance_health target ob (px_state p) \<rparr>"
| "gw_handle E X (Connect A order mx app_id port) p = snd (proxy_to_app A order mx app_id port p)"
| "gw_handle E X (Disconnect c) p = p\<lparr> px_state := (px_state p)\<lparr> st_counters := counter_dec c (st_counters (px_state p)) \<rparr> \<rparr>"
| "gw_handle E X Apply_taken p = p\<lparr> px_wg_pending := False \<rparr>"
| "gw_handle E X (Store_changed kv) p = p\<lparr> px_state := (px_state p)\<lparr> st_kv := kv \<rparr> \<rparr>"
| "gw_handle E X (Reload now) p = reload_event E now p"

fun is_reload :: "('s, 'att) gw_event \<Rightarrow> bool" where
  "is_reload (Reload now) = True"
| "is_reload _ = False"

definition gw_run ::
  "('net, 's) gw_env \<Rightarrow> 'att rpc_ext \<Rightarrow> ('s, 'att) gw_event list \<Rightarrow> ('net, 's) Proxy \<Rightarrow> ('net, 's) Proxy" where
  "gw_run E X events p = fold (gw_handle E X) events p"

section \<open>What every event preserves\<close>

text \<open>
  The contract between a predicate on the routing state and the events: it is enough that the operations
  on the routing state keep it.
\<close>

locale state_invariant =
  fixes E :: "('net, 's) gw_env" and reloads :: bool and I :: "('net, 's) ProxyState \<Rightarrow> bool"
  assumes kv: "I st \<Longrightarrow> I (st\<lparr> st_kv := kv \<rparr>)"
    and counters: "I st \<Longrightarrow> I (st\<lparr> st_counters := c \<rparr>)"
    and register: "I st \<Longrightarrow> I (snd (new_client_by_id E now i a k h r st))"
    and forget: "I st \<Longrightarrow> I (snd (forget_instance i st))"
    and fetched: "I st \<Longrightarrow> I (update_instance_port_policy E i policy st)"
    and set_policy: "I st \<Longrightarrow> I (snd (set_admin_port_policy E i policy st))"
    and clear_policy: "I st \<Longrightarrow> I (snd (clear_admin_port_policy E i st))"
    and ready: "I st \<Longrightarrow> I (snd (set_ready E hs i b st))"
    and polled: "I st \<Longrightarrow> I (record_instance_health t ob st)"
    and select: "I st \<Longrightarrow> I (snd (select_top_n_hosts tick hs hs' rnd i st))"
    and reload: "reloads \<Longrightarrow> I st \<Longrightarrow> I (snd (reload_instances_from_kv_store E now st))"
begin

lemma on_kv_inv: "I st \<Longrightarrow> I (snd (on_kv f st))"
  using kv by (simp add: on_kv_def case_prod_beta)

lemma remove_inv: "I st \<Longrightarrow> I (snd (remove_instance E i st))"
  using forget [of st i] by (auto simp: remove_instance_def intro: on_kv_inv split: prod.split option.split)

lemma register_inv: "I (px_state p) \<Longrightarrow> I (px_state (snd (register_cvm E X now h rq p)))"
  using register
  by (auto simp: register_cvm_def do_register_cvm_def on_state_def register_done_def request_wg_apply_def
      queue_policy_fetch_def split: sum.splits prod.splits)

lemma remove_cvm_inv: "I (px_state p) \<Longrightarrow> I (px_state (snd (admin_remove_cvm E i p)))"
  using on_kv_inv [of "px_state p" "sync_delete_instance (ge_kv E) i"] forget
  by (simp add: admin_remove_cvm_def remove_cvm_def request_wg_apply_def case_prod_beta split: sum.split)

lemma policy_inv: "I st \<Longrightarrow> I (snd (set_instance_port_policy E i policy st))"
  using set_policy by (simp add: set_instance_port_policy_def case_prod_beta split: sum.split option.split)

lemma ready_inv: "I st \<Longrightarrow> I (snd (set_instance_ready E hs i b st))"
  using ready by (simp add: set_instance_ready_def case_prod_beta split: sum.split option.split)

lemma recycle_inv: "I (px_state p) \<Longrightarrow> I (px_state (snd (recycle_apply E stale p)))"
  using recycle_remove_inv [where I = I, OF remove_inv, of "px_state p" stale 0]
  by (auto simp: recycle_apply_def on_state_def request_wg_apply_def split: sum.splits)

lemma connect_inv: "I (px_state p) \<Longrightarrow> I (px_state (snd (proxy_to_app A order mx app_id port p)))"
  using select [of "px_state p" "sa_tick A" "sa_handshakes A" "sa_handshakes_again A" "sa_random A" app_id] counters
  by (auto simp: proxy_to_app_def on_state_def filter_allowed_addresses_def filter_ports_eq queue_all_def
      connect_app_def Let_def split: sum.splits prod.splits)

lemma reload_event_inv: "reloads \<Longrightarrow> I (px_state p) \<Longrightarrow> I (px_state (reload_event E now p))"
  using reload [of "px_state p" now] by (simp add: reload_event_def on_state_def request_wg_apply_def)

lemma event_inv:
  assumes "reloads \<or> \<not> is_reload ev" "I (px_state p)"
  shows "I (px_state (gw_handle E X ev p))"
  using assms register_inv remove_cvm_inv policy_inv ready_inv recycle_inv connect_inv reload_event_inv
  by (cases ev) (simp_all add: on_state_def fetched clear_policy polled counters kv)

end

sublocale state_invariant \<subseteq> event_system "gw_handle E X" "\<lambda>ev. reloads \<or> \<not> is_reload ev" "\<lambda>p. I (px_state p)" for X
  by unfold_locales (rule event_inv)

section \<open>What each operation does to the table\<close>

context instance_edit
begin

lemma edit_lookup:
  "instance_of (snd (edit_instance i edit st)) j =
    (if j = i then map_option (\<lambda>info. snd (edit info)) (instance_of st i) else instance_of st j)"
  unfolding instance_of_def [of "snd _"] by (rule edit_instances)

end

lemma kv_lookup [simp]: "instance_of (st\<lparr> st_kv := kv \<rparr>) = instance_of st"
  "instance_of (st\<lparr> st_counters := c \<rparr>) = instance_of st" "instance_of (snd (on_kv f st)) = instance_of st"
  "instance_of (snd (persist_instance_gate E i st)) = instance_of st"
  "instance_of (snd (persist_instance_record E i st)) = instance_of st"
  "instance_of (snd (persist_instance_port_policy_override E i st)) = instance_of st"
  by (simp_all add: instance_of_def fun_eq_iff)

lemma forget_lookup: "instance_of (snd (forget_instance j st)) i = (if i = j then None else instance_of st i)"
  using forget_fold_instance [of "[j]" st i] by simp

lemma policy_lookup:
  "instance_of (update_instance_port_policy E i policy st) j =
    (if j = i then map_option (\<lambda>info. info\<lparr> ii_port_policy := Some policy \<rparr>) (instance_of st j) else instance_of st j)"
  "instance_of (snd (set_admin_port_policy E i policy st)) j =
    (if j = i then map_option (\<lambda>info. info\<lparr> ii_admin_port_policy := Some policy \<rparr>) (instance_of st j) else instance_of st j)"
  "instance_of (snd (clear_admin_port_policy E i st)) j =
    (if j = i then map_option (\<lambda>info. info\<lparr> ii_admin_port_policy := None \<rparr>) (instance_of st j) else instance_of st j)"
  by (simp_all add: update_instance_port_policy_def set_admin_port_policy_def clear_admin_port_policy_def Let_def
      set_info_lookup split: option.split)

lemma ready_lookup:
  "instance_of (snd (set_ready E hs i b st)) j =
    (if j = i then map_option (\<lambda>info. info\<lparr> ii_ready := Some b \<rparr>) (instance_of st j) else instance_of st j)"
proof -
  let ?st1 = "snd (edit_instance i (\<lambda>info. ((is_ready info, ii_app_id info), info\<lparr> ii_ready := Some b \<rparr>)) st)"
  have "instance_of (snd (set_ready E hs i b st)) = instance_of ?st1"
    by (simp add: set_ready_def Let_def case_prod_beta split: option.split sum.split)
  then show ?thesis by (simp add: gate.edit_lookup)
qed

lemma select_lookup: "instance_of (snd (select_top_n_hosts tick hs hs' rnd i st)) = instance_of st"
proof -
  have r: "instance_of (snd (select_random tick hs' rnd i st)) = instance_of st"
    using random_select_state [of tick hs' rnd i st]
    by (auto simp: select_random_def case_prod_beta Let_def instance_of_def fun_eq_iff)
  have f: "instance_of (snd (select_fresh_n tick h i ids st)) = instance_of st" for h ids
    by (rule select_fresh_n_result [of st tick h i ids]) (simp add: instance_of_def fun_eq_iff)
  show ?thesis
    using r f by (auto simp: select_top_n_hosts_def Let_def case_prod_beta split: option.split sum.split)
qed

lemma select_config: "st_config (snd (select_top_n_hosts tick hs hs' rnd i st)) = st_config st"
proof -
  have r: "st_config (snd (select_random tick hs' rnd i st)) = st_config st"
    using random_select_state [of tick hs' rnd i st] by (auto simp: select_random_def case_prod_beta Let_def)
  have f: "st_config (snd (select_fresh_n tick h i ids st)) = st_config st" for h ids
    by (rule select_fresh_n_result [of st tick h i ids]) simp
  show ?thesis
    using r f by (auto simp: select_top_n_hosts_def Let_def case_prod_beta fresh_counter_def split: option.split sum.split)
qed

lemma forget_config: "st_config (snd (forget_instance i st)) = st_config st"
  by (simp add: forget_instance_def split: option.split)

lemma policy_config:
  "st_config (update_instance_port_policy E i policy st) = st_config st"
  "st_config (snd (set_admin_port_policy E i policy st)) = st_config st"
  "st_config (snd (clear_admin_port_policy E i st)) = st_config st"
  by (simp_all add: update_instance_port_policy_def set_admin_port_policy_def clear_admin_port_policy_def Let_def
      set_info_def split: option.split)

lemma ready_config: "st_config (snd (set_ready E hs i b st)) = st_config st"
  by (simp add: set_ready_def Let_def case_prod_beta gate.edit_config split: option.split sum.split)

lemma forget_fold_config: "st_config (fold (\<lambda>i s. snd (forget_instance i s)) is st) = st_config st"
  by (induction "is" arbitrary: st) (simp_all add: forget_config)

lemma reload_fold_config: "st_config (rl_st (fold reload_one ps rl)) = st_config (rl_st rl)"
  by (induction ps arbitrary: rl) (auto simp: reload_one_def Let_def case_prod_beta fresh_counter_def)

lemma reload_config: "st_config (snd (reload_instances_from_kv_store E now st)) = st_config st"
  by (simp add: reload_instances_from_kv_store_def reload_with_def reload_commit_def reload_finish_def
      reload_fold_config forget_fold_config)

lemma tables_ok_same:
  assumes "ps_apps s' = ps_apps (st_state st)" "ps_instances s' = ps_instances (st_state st)"
    "ps_allocated s' = ps_allocated (st_state st)" "ps_top_n s' = ps_top_n (st_state st)"
  shows "tables_ok (st\<lparr> st_state := s' \<rparr>) = tables_ok st"
  using assms by (simp add: tables_ok_def index_ok_def cache_ok_def names_instance_def)

lemma select_fresh_n_tables:
  assumes ok: "tables_ok st" and app: "by_app i st ids"
  shows "tables_ok (snd (select_fresh_n tick h i ids st))"
proof -
  let ?g = "map address_of_candidate (fresh_selection st h ids)"
  obtain s' where s': "ps_apps s' = ps_apps (st_state st)" "ps_instances s' = ps_instances (st_state st)"
      "ps_allocated s' = ps_allocated (st_state st)" "ps_top_n s' = ps_top_n (st_state st)"
    and r: "snd (select_fresh_n tick h i ids st) = st\<lparr> st_state := s'\<lparr> ps_top_n := bt_insert i (?g, tick) (ps_top_n s') \<rparr> \<rparr>"
    using select_fresh_n_result [of st tick h i ids] by (metis snd_conv)
  have idx: "index_ok (st_state st)" "cache_ok (st_state st)" using ok by (simp_all add: tables_ok_def)
  have same: "names_instance (s'\<lparr> ps_top_n := x \<rparr>) = names_instance (st_state st)" for x
    using s'(2) by (simp add: names_instance_def fun_eq_iff)
  have "cache_ok (s'\<lparr> ps_top_n := bt_insert i (?g, tick) (ps_top_n s') \<rparr>)"
    unfolding cache_ok_def same using idx(2) fresh_selection_names [OF idx(1) app] s'(4) by (simp add: cache_ok_def)
  moreover have "index_ok s'" using tables_ok_same [OF s'] ok by (simp add: tables_ok_def)
  ultimately show ?thesis by (simp add: r tables_ok_def set_top_n_frame)
qed

lemma select_tables:
  assumes ok: "tables_ok st"
  shows "tables_ok (snd (select_top_n_hosts tick hs hs' rnd i st))"
proof (cases "\<exists>ids. by_app i st ids")
  case False
  then show ?thesis
    using ok select_not_by_app [of i st tick hs hs' rnd] by (auto simp: fresh_counter_def tables_ok_def)
next
  case True
  then obtain ids where app: "by_app i st ids" by blast
  have "tables_ok (snd (select_random tick hs' rnd i st))"
    using random_select_state [of tick hs' rnd i st] ok
    by (auto simp: select_random_def Let_def case_prod_beta tables_ok_same)
  then show ?thesis
    using ok select_fresh_n_tables [OF ok app] by (auto simp: select_by_app [OF app] split: option.split sum.split)
qed

lemma record_instance_health_tables: "tables_ok st \<Longrightarrow> tables_ok (record_instance_health target ob st)"
  unfolding record_instance_health_def by (rule obs.edit_tables)

interpretation run_tables: state_invariant E True tables_ok for E :: "('net, 's) gw_env"
  by unfold_locales (simp_all add: new_client_tables forget_instance_tables policy_ops_tables set_ready_tables
      record_instance_health_tables select_tables reload_tables_ok)

lemma state_ok_update: "state_ok E (st\<lparr> st_kv := kv \<rparr>) = state_ok E st" "state_ok E (st\<lparr> st_counters := c \<rparr>) = state_ok E st"
  by (rule state_ok_frame; simp)+

interpretation run_ok: state_invariant E False "state_ok E" for E :: "('net, 's) gw_env"
  by unfold_locales (simp_all add: state_ok_update new_client_by_id_ok forget_instance_ok policy_ops_ok set_ready_ok
      record_instance_health_ok select_state_ok)

interpretation run_config: state_invariant E True "\<lambda>st. st_config st = cfg"
  by unfold_locales (simp_all add: new_client_config forget_config policy_config ready_config select_config reload_config
      record_instance_health_def obs.edit_config)

section \<open>Where a connection may go\<close>

lemma permitted_cong: "instance_of st = instance_of st' \<Longrightarrow> permitted st = permitted st'"
  by (simp add: permitted_def fun_eq_iff)

lemma should_send_pp_cong: "instance_of (px_state p) = instance_of (px_state p') \<Longrightarrow> should_send_pp i port p = should_send_pp i port p'"
  by (simp add: should_send_pp_def instance_port_policy_def)

lemma proxy_to_app_Inr:
  assumes "fst (proxy_to_app A order mx target port p) = Inr (a, pp)"
  obtains g where "fst (select_top_n_hosts (sa_tick A) (sa_handshakes A) (sa_handshakes_again A) (sa_random A) target (px_state p)) = Inr g"
    "a \<in> set g" "permitted (px_state p) (ad_instance_id a) port" "pp = should_send_pp (ad_instance_id a) port p"
proof -
  let ?sel = "select_top_n_hosts (sa_tick A) (sa_handshakes A) (sa_handshakes_again A) (sa_random A) target (px_state p)"
  let ?st = "snd ?sel"
  obtain g where g: "fst ?sel = Inr g"
    using assms by (cases "fst ?sel") (auto simp: proxy_to_app_def on_state_def)
  define ok where "ok = filter (\<lambda>a. permitted ?st (ad_instance_id a) port) g"
  define p2 where "p2 = queue_all (filter (policy_unknown ?st) (map ad_instance_id g)) (p\<lparr> px_state := ?st \<rparr>)"
  have st2: "px_state p2 = ?st" by (simp add: p2_def queue_all_def)
  have r: "fst (connect_app order ok mx port p2) = Inr (a, pp)"
    using assms by (auto simp: proxy_to_app_def on_state_def g filter_allowed_addresses_def filter_ports_eq
        queue_all_def ok_def p2_def split: if_splits)
  obtain x c where c: "connect_multiple_hosts order ok mx (st_counters ?st) = (x, c)" by fastforce
  have x: "x = Inr a" "pp = should_send_pp (ad_instance_id a) port p"
    using r c by (cases x; auto simp: connect_app_def st2 Let_def intro!: should_send_pp_cong simp: select_lookup)+
  have "a \<in> set ok" using connect_result [OF c] x by simp
  moreover have "permitted ?st = permitted (px_state p)" by (rule permitted_cong [OF select_lookup])
  ultimately show thesis using that [OF g] x(2) by (simp add: ok_def)
qed

lemma select_goal:
  assumes idx: "index_ok (st_state st)" and cache: "cache_ok (st_state st)"
    and sel: "fst (select_top_n_hosts tick hs hs' r target st) = Inr g" and ad: "ad \<in> set g"
  shows "(cfg_insecure_localhost (st_config st) \<and> target = ''localhost'' \<and> ad_instance_id ad = ''localhost'' \<and> ad_ip ad = 0x7F000001) \<or>
    (\<exists>info. instance_of st (ad_instance_id ad) = Some info \<and> ad = address_of info \<and>
      (ad_instance_id ad = target \<or> ii_app_id info = target \<and> is_ready info))"
proof (cases "\<exists>ids. by_app target st ids")
  case True
  then obtain info where "info \<in> app_members st target" "is_ready info" "ad = address_of info"
    using select_respects_gate [OF idx cache _ sel ad] by blast
  then show ?thesis using index_key [OF idx] by (auto simp: app_members_def instance_of_def address_of_def)
next
  case False
  show ?thesis
  proof (cases "cfg_insecure_localhost (st_config st) \<and> target = ''localhost''")
    case True
    then show ?thesis using sel ad by (auto simp: select_top_n_hosts_def Let_def case_prod_beta)
  next
    case local: False
    then obtain info where info: "instance_of st target = Some info" "g = [address_of info]"
      using sel False by (cases "instance_of st target") (auto simp: select_top_n_hosts_def by_app_def split: option.splits)
    then show ?thesis using ad index_key [OF idx, of target info] by (auto simp: instance_of_def address_of_def)
  qed
qed

text \<open>A gateway as it starts: its routing state is the one built from the store, with whatever store, counters and queues.\<close>

definition started :: "('net, 's) gw_env \<Rightarrow> ('net, 's) Proxy \<Rightarrow> bool" where
  "started E p = (\<exists>now kv legacy. st_state (px_state p) =
    fst (build_state_from_kv_store E (st_config (px_state p)) now kv (load_all_instances (ge_kv E) kv) legacy))"

lemma started_ok:
  assumes "started E p"
  shows "state_ok E (px_state p)"
proof -
  obtain now kv legacy where s: "st_state (px_state p) =
      fst (build_state_from_kv_store E (st_config (px_state p)) now kv (load_all_instances (ge_kv E) kv) legacy)"
    using assms by (auto simp: started_def)
  show ?thesis
    unfolding state_ok_def s
    using build_state_ok [OF load_all_instances_wf, of E "st_config (px_state p)" now kv _ _ legacy "valid_ip E (px_state p)"]
    unfolding Let_def by blast
qed

lemma started_tables: "started E p \<Longrightarrow> tables_ok (px_state p)"
  using started_ok by (auto simp: state_ok_def tables_ok_def)

lemma run_tables_ok: "started E p \<Longrightarrow> tables_ok (px_state (gw_run E X events p))"
  unfolding gw_run_def using started_tables [of E p] by (auto intro!: run_tables.run_inv simp: list_all_iff)

lemma run_config_eq: "st_config (px_state (gw_run E X events p)) = st_config (px_state p)"
  unfolding gw_run_def by (rule run_config.run_inv) (simp_all add: list_all_iff)


section \<open>Changes of the WireGuard peers\<close>

text \<open>What the rendered configuration depends on, instance by instance.\<close>

definition wg_view :: "('net, 's) ProxyState \<Rightarrow> string \<Rightarrow> (string \<times> ipv4) option" where
  "wg_view st i = map_option (\<lambda>info. (ii_public_key info, ii_ip info)) (instance_of st i)"

definition wg_peers :: "('net, 's) gw_env \<Rightarrow> ('net, 's) ProxyState \<Rightarrow> WgPeer set" where
  "wg_peers E st = set (wc_peers (generate_wg_config E st))"

lemma wg_peers_view:
  assumes "tables_ok st"
  shows "wg_peers E st = {\<lparr> wp_public_key = k, wp_ip = ip \<rparr> | k ip. (\<exists>i. wg_view st i = Some (k, ip)) \<and>
    validate_wg_public_key (ge_ext E) k = Inr () \<and> k \<noteq> wg_public_key (cfg_wg (st_config st)) \<and>
    is_routable_client_ip (ge_ext E) (cfg_wg (st_config st)) ip}"
proof -
  have wf: "bt_wf (ps_instances (st_state st))" using assms by (simp add: tables_ok_def index_ok_def)
  show ?thesis
    by (rule set_eqI) (simp add: wg_peers_def generate_wg_config_peers [OF wf] wg_view_def, blast)
qed

lemma wg_view_lookup: "instance_of st = instance_of st' \<Longrightarrow> wg_view st = wg_view st'"
  by (simp add: wg_view_def fun_eq_iff)

lemma wg_view_same [simp]:
  "wg_view (update_instance_port_policy E i policy st) = wg_view st"
  "wg_view (snd (set_admin_port_policy E i policy st)) = wg_view st"
  "wg_view (snd (clear_admin_port_policy E i st)) = wg_view st"
  "wg_view (snd (set_ready E hs i b st)) = wg_view st"
  "wg_view (record_instance_health t ob st) = wg_view st"
  "wg_view (snd (select_top_n_hosts tick hs hs' rnd i st)) = wg_view st"
  "wg_view (st\<lparr> st_kv := kv \<rparr>) = wg_view st" "wg_view (st\<lparr> st_counters := c \<rparr>) = wg_view st"
  by (auto simp: wg_view_def fun_eq_iff policy_lookup ready_lookup select_lookup record_health_lookup option.map_comp comp_def
      apply_observation_def set_health_def intro!: option.map_cong)

lemma new_client_error:
  assumes "new_client_by_id E now i a k h r st = (Inl e, st')"
  shows "instance_of st' = instance_of st \<or>
    (\<exists>old. e = Ip_pool_exhausted \<and> reg_check E i a k st = Inr () \<and> instance_of st i = Some old \<and>
      instance_of st' = (instance_of st)(i \<mapsto> snd (reregister now k h r old)))"
proof (cases "reg_check E i a k st")
  case (Inl e')
  then show ?thesis using assms by (simp add: new_client_refused)
next
  case (Inr u)
  let ?edit = "edit_instance i (reregister now k h r) st"
  have full: "allocate_client E now i a k h r prev st1 = (Inl e, st') \<Longrightarrow> e = Ip_pool_exhausted \<and> instance_of st' = instance_of st1"
    for prev st1
    by (auto simp: allocate_client_def alloc_ip_def Let_def instance_of_def fun_eq_iff split: option.splits prod.splits)
  show ?thesis
  proof (cases "instance_of st i")
    case None
    then have "?edit = (None, st)" by (simp add: edit_instance_def)
    then show ?thesis using assms full [of None st] unfolding new_client_allowed [OF Inr] by simp
  next
    case (Some old)
    let ?x = "snd (reregister now k h r old)"
    define st1 where "st1 = snd ?edit"
    have e: "?edit = (Some ?x, st1)" using Some by (simp add: st1_def rereg.edit_result reregister_fst)
    have at: "instance_of st1 = (instance_of st)(i \<mapsto> ?x)"
      using Some by (simp add: fun_eq_iff st1_def rereg.edit_lookup)
    have "e = Ip_pool_exhausted \<and> instance_of st' = instance_of st1"
      using assms full [of "Some ?x" "upd_state (\<lambda>s. s\<lparr> ps_allocated := bs_remove (ii_ip ?x) (ps_allocated s) \<rparr>) st1"]
      unfolding new_client_allowed [OF Inr] e by (auto simp: instance_of_def fun_eq_iff split: if_splits)
    then show ?thesis using at Some Inr by simp
  qed
qed

lemma register_cvm_cases:
  obtains (refused) "snd (register_cvm E X now h rq p) = p"
  | (failed) i a k ch r e st' where "new_client_by_id E now i a k ch r (px_state p) = (Inl e, st')"
      "register_cvm E X now h rq p = (Inl (State e), p\<lparr> px_state := st' \<rparr>)"
  | (accepted) i a k ch r info st' where "new_client_by_id E now i a k ch r (px_state p) = (Inr info, st')"
      "px_state (snd (register_cvm E X now h rq p)) = st'" "px_wg_pending (snd (register_cvm E X now h rq p))"
proof (cases "register_request X h rq")
  case (Inl e)
  then show thesis using refused by (simp add: register_cvm_def)
next
  case (Inr x)
  obtain info pp where x: "x = (info, pp)" by fastforce
  define i a ch k r where "i = hex_encode X (ap_instance_id info)" and "a = hex_encode X (ap_app_id info)"
    and "ch = hex_encode X (ap_compose_hash info)" and "k = rq_client_public_key rq"
    and "r = \<lparr> rc_port_policy = pp, rc_health_check = Some (rq_health_check rq) \<rparr>"
  have reg: "register_cvm E X now h rq p = (case do_register_cvm E now a i k ch r p of
      (Inl e, p1) \<Rightarrow> (Inl (State e), p1) | (Inr resp, p1) \<Rightarrow> (Inr resp, p1))"
    by (simp add: register_cvm_def Inr x i_def a_def ch_def k_def r_def)
  obtain res st' where n: "new_client_by_id E now i a k ch r (px_state p) = (res, st')" by fastforce
  show thesis
  proof (cases "register_check E a i k (px_state p)")
    case (Inl e)
    then show thesis using refused by (simp add: reg do_register_cvm_def)
  next
    case (Inr u)
    show thesis
    proof (cases res)
      case (Inl e)
      then show thesis using failed [OF n [unfolded Inl]] Inr n by (simp add: reg do_register_cvm_def on_state_def)
    next
      case acc: (Inr i')
      show thesis
        by (rule accepted [OF n [unfolded acc]])
          (simp_all add: reg do_register_cvm_def on_state_def Inr n acc register_done_def request_wg_apply_def queue_policy_fetch_def)
    qed
  qed
qed

lemma reload_fold_view:
  assumes "\<not> rl_wg_changed (fold reload_one ps rl)"
  shows "\<not> rl_wg_changed rl \<and> wg_view (rl_st (fold reload_one ps rl)) = wg_view (rl_st rl)"
  using assms
proof (induction ps arbitrary: rl)
  case (Cons x ps)
  obtain i d ov where x: "x = (i, d, ov)" by (cases x) auto
  note IH = Cons.IH [of "reload_one x rl"]
  have same: "\<not> rl_wg_changed (reload_one x rl)" "wg_view (rl_st (fold reload_one (x # ps) rl)) = wg_view (rl_st (reload_one x rl))"
    using IH Cons.prems by simp_all
  let ?new = "fst (reload_info ov i d (instance_of (rl_st rl) i) (st_next_counter (rl_st rl)))"
  have "\<not> rl_wg_changed rl" "\<exists>e. instance_of (rl_st rl) i = Some e \<and> ii_public_key e = ii_public_key ?new \<and> ii_ip e = ii_ip ?new"
    using same(1) by (auto simp: x reload_one_def Let_def case_prod_beta fresh_counter_def instance_of_def split: option.splits)
  then show ?case
    unfolding same(2) by (auto simp: x wg_view_def fun_eq_iff reload_one_instance)
qed simp

lemma reload_view:
  assumes "\<not> fst (reload_instances_from_kv_store E now st)"
  shows "wg_view (snd (reload_instances_from_kv_store E now st)) = wg_view st"
proof -
  let ?acc = "reload_accepted E now st"
  let ?gone = "gone_instances now ?acc st"
  let ?ps = "map (\<lambda>(i, d). (i, d, reload_overrides E (reload_kv E st) i)) (ai_instances ?acc)"
  define st1 where "st1 = st\<lparr> st_kv := reload_kv E st, st_reported_rejections :=
      rp_reported (report_new_rejections (st_reported_rejections st) (ai_rejected ?acc)) \<rparr>"
  let ?rl = "\<lparr> rl_st = fold (\<lambda>i s. snd (forget_instance i s)) ?gone st1, rl_wg_changed = (?gone \<noteq> []), rl_unreadable = [] \<rparr>"
  have r: "reload_instances_from_kv_store E now st = reload_finish E ?gone (fold reload_one ?ps ?rl)"
    by (simp add: reload_instances_from_kv_store_def reload_with_def reload_commit_def st1_def)
  have "\<not> rl_wg_changed (fold reload_one ?ps ?rl)" using assms by (simp add: r reload_finish_def)
  note v = reload_fold_view [OF this]
  then have gone: "?gone = []" by simp
  have "wg_view (rl_st (fold reload_one ?ps ?rl)) = wg_view st1" using conjunct2 [OF v] gone by simp
  moreover have "wg_view st1 = wg_view st" by (rule wg_view_lookup) (simp add: st1_def instance_of_def fun_eq_iff)
  moreover have "wg_view (snd (reload_finish E ?gone rl)) = wg_view (rl_st rl)" for rl
    by (rule wg_view_lookup) (simp add: reload_finish_def instance_of_def fun_eq_iff)
  ultimately show ?thesis by (simp add: r)
qed

lemma event_view:
  assumes "tables_ok (px_state p)"
  shows "wg_view (px_state (gw_handle E X ev p)) = wg_view (px_state p) \<or> px_wg_pending (gw_handle E X ev p) \<or>
    (\<exists>now h rq. ev = Register now h rq \<and> fst (register_cvm E X now h rq p) = Inl (State Ip_pool_exhausted))"
proof (cases ev)
  case (Register now h rq)
  show ?thesis
    by (rule register_cvm_cases [of E X now h rq p]) (auto simp: Register dest!: new_client_error intro: wg_view_lookup)
next
  case (Remove_cvm i)
  show ?thesis
    by (simp add: Remove_cvm admin_remove_cvm_def remove_cvm_def request_wg_apply_def case_prod_beta on_kv_def split: sum.split)
next
  case (Recycle_stale stale)
  then show ?thesis
    using recycle_apply_result(2,3) [of E stale p]
    by (auto simp: wg_view_def fun_eq_iff recycle_remove_lookup)
next
  case (Connect A order mx target port)
  then show ?thesis
    by (simp add: proxy_to_app_def on_state_def filter_allowed_addresses_def filter_ports_eq queue_all_def
      connect_app_def Let_def case_prod_beta split: sum.split)
next
  case (Reload now)
  then show ?thesis
    using reload_view [of E now "px_state p"] by (auto simp: reload_event_def on_state_def request_wg_apply_def)
qed (simp_all add: on_state_def set_instance_port_policy_def set_instance_ready_def case_prod_beta split: option.split sum.split)

lemma event_keeps_request:
  assumes "px_wg_pending p" "ev \<noteq> Apply_taken"
  shows "px_wg_pending (gw_handle E X ev p)"
proof (cases ev)
  case (Register now h rq)
  show ?thesis
    by (rule register_cvm_cases [of E X now h rq p]) (use assms(1) in \<open>simp_all add: Register\<close>)
next
  case (Recycle_stale stale)
  then show ?thesis using recycle_apply_result(3) [of E stale p] assms(1) by simp
qed (use assms in \<open>simp_all add: on_state_def admin_remove_cvm_def remove_cvm_def request_wg_apply_def reload_event_def
    proxy_to_app_def filter_allowed_addresses_def filter_ports_eq queue_all_def connect_app_def Let_def case_prod_beta
    split: sum.split\<close>)

lemma run_keeps_request:
  assumes "px_wg_pending p" "Apply_taken \<notin> set events"
  shows "px_wg_pending (gw_run E X events p)"
  unfolding gw_run_def using assms
proof (induction events arbitrary: p)
  case (Cons ev events)
  then show ?case using event_keeps_request [of p ev E X] by auto
qed simp

text \<open>The registrations among \<open>events\<close> that find no free address.\<close>

fun exhausts :: "('net, 's) gw_env \<Rightarrow> 'att rpc_ext \<Rightarrow> ('s, 'att) gw_event list \<Rightarrow> ('net, 's) Proxy \<Rightarrow> bool" where
  "exhausts E X [] p = False"
| "exhausts E X (ev # events) p =
    ((case ev of Register now h rq \<Rightarrow> fst (register_cvm E X now h rq p) = Inl (State Ip_pool_exhausted) | _ \<Rightarrow> False) \<or>
     exhausts E X events (gw_handle E X ev p))"

lemma run_view:
  assumes "tables_ok (px_state p)" "Apply_taken \<notin> set events" "\<not> exhausts E X events p"
  shows "px_wg_pending (gw_run E X events p) \<or> wg_view (px_state (gw_run E X events p)) = wg_view (px_state p)"
  using assms
proof (induction events arbitrary: p)
  case (Cons ev events)
  let ?p = "gw_handle E X ev p"
  have ok: "tables_ok (px_state ?p)" using Cons.prems(1) by (intro run_tables.event_inv) simp_all
  have run: "gw_run E X (ev # events) p = gw_run E X events ?p" by (simp add: gw_run_def)
  consider "wg_view (px_state ?p) = wg_view (px_state p)" | "px_wg_pending ?p"
    using event_view [OF Cons.prems(1), of E X ev] Cons.prems(3) by auto
  then show ?case
    using Cons.IH [OF ok] Cons.prems(2,3) run_keeps_request [of ?p events E X] by cases (auto simp: run)
qed (simp add: gw_run_def)

text \<open>
  C3. No change of the WireGuard peers is lost between the routing table and the apply worker.  After any
  history, and for any further events during which the worker takes no request from its channel, either
  a request is waiting there or the peers that would be rendered now are those that would have been
  rendered before.  The exception is a registration that fails because no address is free.
\<close>

theorem peer_changes_are_requested:
  assumes "started E p0" "p = gw_run E X history p0" "Apply_taken \<notin> set events" "\<not> exhausts E X events p"
  shows "px_wg_pending (gw_run E X events p) \<or> wg_peers E (px_state (gw_run E X events p)) = wg_peers E (px_state p)"
proof -
  have ok: "tables_ok (px_state p)" using run_tables_ok [OF assms(1)] assms(2) by simp
  then have ok': "tables_ok (px_state (gw_run E X events p))"
    unfolding gw_run_def by (intro run_tables.run_inv) (simp_all add: list_all_iff)
  show ?thesis
    using run_view [OF ok assms(3,4)] unfolding wg_peers_view [OF ok] wg_peers_view [OF ok'] run_config_eq by auto
qed

section \<open>The registry the gateway implements\<close>

text \<open>
  The abstract view: which instance is registered, for which app, with which key and address, and what
  the operator has decided about it.  The steps say what may happen to it: a new instance enrols with a
  key and an address nobody else has; a registered one may change its key and be moved to a free
  address, keeping its app and the operator's decisions; it may leave; the operator may open or close
  its gate and set or clear a port policy.
\<close>

record enrolment =
  en_app :: string
  en_key :: string
  en_ip :: ipv4
  en_ready :: bool
  en_policy :: "PortPolicy option"

type_synonym registry = "string \<rightharpoonup> enrolment"

definition entry_of :: "InstanceInfo \<Rightarrow> enrolment" where
  "entry_of info = \<lparr> en_app = ii_app_id info, en_key = ii_public_key info, en_ip = ii_ip info, en_ready = is_ready info,
    en_policy = ii_admin_port_policy info \<rparr>"

definition registry :: "('net, 's) ProxyState \<Rightarrow> registry" where
  "registry st i = map_option entry_of (instance_of st i)"

definition fresh_key :: "string \<Rightarrow> string \<Rightarrow> registry \<Rightarrow> bool" where
  "fresh_key i k m = (\<forall>j e. m j = Some e \<longrightarrow> j \<noteq> i \<longrightarrow> en_key e \<noteq> k)"

definition fresh_ip :: "(ipv4 \<Rightarrow> bool) \<Rightarrow> string \<Rightarrow> ipv4 \<Rightarrow> registry \<Rightarrow> bool" where
  "fresh_ip valid i ip m = (valid ip \<and> (\<forall>j e. m j = Some e \<longrightarrow> j \<noteq> i \<longrightarrow> en_ip e \<noteq> ip))"

inductive registry_step :: "(ipv4 \<Rightarrow> bool) \<Rightarrow> registry \<Rightarrow> registry \<Rightarrow> bool" for valid where
  enrol: "m i = None \<Longrightarrow> fresh_key i (en_key e) m \<Longrightarrow> fresh_ip valid i (en_ip e) m \<Longrightarrow> en_ready e \<Longrightarrow> en_policy e = None
    \<Longrightarrow> registry_step valid m (m(i \<mapsto> e))"
| renew: "m i = Some e \<Longrightarrow> fresh_key i k m \<Longrightarrow> ip = en_ip e \<or> fresh_ip valid i ip m
    \<Longrightarrow> registry_step valid m (m(i \<mapsto> e\<lparr> en_key := k, en_ip := ip \<rparr>))"
| leave: "registry_step valid m (m(i := None))"
| gate: "m i = Some e \<Longrightarrow> registry_step valid m (m(i \<mapsto> e\<lparr> en_ready := b \<rparr>))"
| policy: "m i = Some e \<Longrightarrow> registry_step valid m (m(i \<mapsto> e\<lparr> en_policy := q \<rparr>))"

definition registry_wf :: "(ipv4 \<Rightarrow> bool) \<Rightarrow> registry \<Rightarrow> bool" where
  "registry_wf valid m = (\<forall>i j x y. i \<noteq> j \<longrightarrow> m i = Some x \<longrightarrow> m j = Some y \<longrightarrow>
    en_key x \<noteq> en_key y \<and> (valid (en_ip x) \<longrightarrow> en_ip x \<noteq> en_ip y))"

lemma registry_lookup: "instance_of st = instance_of st' \<Longrightarrow> registry st = registry st'"
  by (simp add: registry_def fun_eq_iff)

lemma registry_of_ok: "state_ok E st \<Longrightarrow> registry_wf (valid_ip E st) (registry st)"
  unfolding state_ok_def addr_ok_def keys_ok_def registry_wf_def registry_def
  by (auto simp: entry_of_def instance_of_def)

lemma registry_wf_update:
  assumes wf: "registry_wf valid m" and key: "fresh_key i (en_key e) m"
    and ip: "\<And>j x. m j = Some x \<Longrightarrow> j \<noteq> i \<Longrightarrow> valid (en_ip e) \<Longrightarrow> en_ip x \<noteq> en_ip e"
  shows "registry_wf valid (m(i \<mapsto> e))"
  unfolding registry_wf_def
proof (intro allI impI)
  fix a b x y assume ab: "a \<noteq> b" "(m(i \<mapsto> e)) a = Some x" "(m(i \<mapsto> e)) b = Some y"
  have old: "m a = Some x \<Longrightarrow> m b = Some y \<Longrightarrow> en_key x \<noteq> en_key y \<and> (valid (en_ip x) \<longrightarrow> en_ip x \<noteq> en_ip y)"
    using wf ab(1) by (simp add: registry_wf_def)
  have new: "m j = Some z \<Longrightarrow> j \<noteq> i \<Longrightarrow> en_key z \<noteq> en_key e" for j z using key by (simp add: fresh_key_def)
  show "en_key x \<noteq> en_key y \<and> (valid (en_ip x) \<longrightarrow> en_ip x \<noteq> en_ip y)"
  proof (cases "a = i"; cases "b = i")
    assume "a = i" "b \<noteq> i"
    then show ?thesis using ab new [of b y] ip [of b y] by auto
  next
    assume "a \<noteq> i" "b = i"
    then show ?thesis using ab new [of a x] ip [of a x] by auto
  qed (use ab old in auto)
qed

lemma registry_wf_others:
  assumes "registry_wf valid m" "m i = Some e" "m j = Some x" "j \<noteq> i"
  shows "en_key x \<noteq> en_key e" "valid (en_ip e) \<Longrightarrow> en_ip x \<noteq> en_ip e"
  using assms unfolding registry_wf_def by metis+

lemma registry_step_wf: "registry_step valid m m' \<Longrightarrow> registry_wf valid m \<Longrightarrow> registry_wf valid m'"
proof (induction rule: registry_step.induct)
  case (enrol m i e)
  then show ?case by (intro registry_wf_update) (auto simp: fresh_ip_def)
next
  case (renew m i e k ip)
  then show ?case
    using registry_wf_others(2) [OF renew(4,1)] by (intro registry_wf_update) (auto simp: fresh_ip_def)
next
  case (leave m i)
  have "m a = Some x" if "(m(i := None)) a = Some x" for a x using that by (simp split: if_splits)
  then show ?case using leave unfolding registry_wf_def by blast
next
  case (gate m i e b)
  then show ?case
    using registry_wf_others [OF gate(2,1)] by (intro registry_wf_update) (auto simp: fresh_key_def)
next
  case (policy m i e q)
  then show ?case
    using registry_wf_others [OF policy(2,1)] by (intro registry_wf_update) (auto simp: fresh_key_def)
qed

lemma registry_unchanged: "instance_of st' = instance_of st \<Longrightarrow> (registry_step valid)\<^sup>*\<^sup>* (registry st) (registry st')"
  using registry_lookup [of st' st] by simp

lemma registry_edit:
  assumes "\<And>j. instance_of st' j = (if j = i then map_option f (instance_of st j) else instance_of st j)"
    and "\<And>info. instance_of st i = Some info \<Longrightarrow>
      registry_step valid (registry st) ((registry st)(i \<mapsto> entry_of (f info))) \<or> entry_of (f info) = entry_of info"
  shows "(registry_step valid)\<^sup>*\<^sup>* (registry st) (registry st')"
proof (cases "instance_of st i")
  case None
  then show ?thesis by (intro registry_unchanged) (simp add: fun_eq_iff assms(1))
next
  case (Some info)
  then have "registry st' = (registry st)(i \<mapsto> entry_of (f info))" by (simp add: fun_eq_iff registry_def assms(1))
  moreover have "(registry st)(i \<mapsto> entry_of info) = registry st" using Some by (simp add: fun_eq_iff registry_def)
  ultimately show ?thesis using assms(2) [OF Some] by auto
qed

lemma fresh_key_check:
  assumes "index_ok (st_state st)" "reg_check E i a k st = Inr ()"
  shows "fresh_key i k (registry st)"
proof -
  have "ii_public_key x \<noteq> k" if "instance_of st j = Some x" "j \<noteq> i" for j x
    using key_in_use_iff [OF assms(1), of i k] reg_check_Inr(4) [OF assms(2)] that by blast
  then show ?thesis unfolding fresh_key_def registry_def entry_of_def by fastforce
qed
lemma new_client_check:
  assumes "new_client_by_id E now i a k h r st = (Inr info, st')"
  shows "reg_check E i a k st = Inr ()"
  using assms new_client_refused [of E i a k st _ now h r] by (cases "reg_check E i a k st") auto

lemma new_client_first:
  assumes "new_client_by_id E now i a k h r st = (Inr info, st')" "instance_of st i = None"
  shows "ii_ready info = None \<and> ii_admin_port_policy info = None"
  using assms(1) unfolding new_client_allowed [OF new_client_check [OF assms(1)]]
  by (auto simp: edit_instance_def assms(2) allocate_client_def rebuild_info_def Let_def split: option.splits prod.splits)

lemma registered_step:
  assumes ok: "state_ok E st" and reg: "new_client_by_id E now i a k h r st = (Inr info, st')"
  shows "registry_step (valid_ip E st) (registry st) (registry st')"
proof -
  have idx: "index_ok (st_state st)" using ok by (simp add: state_ok_def)
  note chk = new_client_check [OF reg]
  note res = new_client_result [OF idx reg]
  have reg': "registry st' = (registry st)(i \<mapsto> entry_of info)" using res by (simp add: fun_eq_iff registry_def)
  have "registry_wf (valid_ip E st) (registry st')"
    using registry_of_ok [OF new_client_by_id_ok [OF ok, of now i a k h r]] reg
      valid_ip_config [OF new_client_config [of E now i a k h r st]] by simp
  then have ip: "fresh_ip (valid_ip E st) i (ii_ip info) (registry st)"
    using res registry_wf_others(2) [of "valid_ip E st" "registry st'" i "entry_of info"] unfolding reg'
    by (simp add: fresh_ip_def entry_of_def)
  have key: "fresh_key i k (registry st)" by (rule fresh_key_check [OF idx chk])
  show ?thesis
  proof (cases "instance_of st i")
    case None
    show ?thesis
      unfolding reg' using None key ip res new_client_first [OF reg None]
      by (intro registry_step.enrol) (simp_all add: registry_def entry_of_def is_ready_def)
  next
    case (Some old)
    then have "entry_of info = entry_of old\<lparr> en_key := k, en_ip := ii_ip info \<rparr>"
      using res reg_check_Inr(5) [OF chk Some] by (simp add: entry_of_def is_ready_def)
    then show ?thesis
      unfolding reg' using Some key ip by (auto intro: registry_step.renew simp: registry_def)
  qed
qed

lemma failed_step:
  assumes "index_ok (st_state st)" "new_client_by_id E now i a k h r st = (Inl e, st')"
  shows "(registry_step valid)\<^sup>*\<^sup>* (registry st) (registry st')"
  using new_client_error [OF assms(2)]
proof (elim disjE exE conjE)
  fix old assume chk: "reg_check E i a k st = Inr ()" and old: "instance_of st i = Some old"
    and st': "instance_of st' = (instance_of st)(i \<mapsto> snd (reregister now k h r old))"
  have "entry_of (snd (reregister now k h r old)) = entry_of old\<lparr> en_key := k, en_ip := en_ip (entry_of old) \<rparr>"
    by (simp add: entry_of_def is_ready_def rereg.keeps_app rereg.keeps_ip)
  moreover have "registry st' = (registry st)(i \<mapsto> entry_of (snd (reregister now k h r old)))"
    by (simp add: registry_def fun_eq_iff st')
  moreover have "registry_step valid (registry st) ((registry st)(i \<mapsto> entry_of old\<lparr> en_key := k, en_ip := en_ip (entry_of old) \<rparr>))"
    by (rule registry_step.renew) (use fresh_key_check [OF assms(1) chk] old in \<open>simp_all add: registry_def\<close>)
  ultimately show ?thesis by simp
qed (simp add: registry_unchanged)

lemma operator_steps:
  "(registry_step valid)\<^sup>*\<^sup>* (registry st) (registry (snd (set_admin_port_policy E i policy st)))"
  "(registry_step valid)\<^sup>*\<^sup>* (registry st) (registry (snd (clear_admin_port_policy E i st)))"
  "(registry_step valid)\<^sup>*\<^sup>* (registry st) (registry (snd (set_ready E hs i b st)))"
proof -
  have p: "registry_step valid (registry st) ((registry st)(i \<mapsto> entry_of (info\<lparr> ii_admin_port_policy := q \<rparr>)))"
    if "instance_of st i = Some info" for info q
    using registry_step.policy [of "registry st" i "entry_of info" valid q] that
    by (simp add: registry_def entry_of_def is_ready_def)
  have g: "registry_step valid (registry st) ((registry st)(i \<mapsto> entry_of (info\<lparr> ii_ready := Some b \<rparr>)))"
    if "instance_of st i = Some info" for info
    using registry_step.gate [of "registry st" i "entry_of info" valid b] that
    by (simp add: registry_def entry_of_def is_ready_def)
  show "(registry_step valid)\<^sup>*\<^sup>* (registry st) (registry (snd (set_admin_port_policy E i policy st)))"
    by (rule registry_edit [OF policy_lookup(2)]) (simp add: p)
  show "(registry_step valid)\<^sup>*\<^sup>* (registry st) (registry (snd (clear_admin_port_policy E i st)))"
    by (rule registry_edit [OF policy_lookup(3)]) (simp add: p)
  show "(registry_step valid)\<^sup>*\<^sup>* (registry st) (registry (snd (set_ready E hs i b st)))"
    by (rule registry_edit [OF ready_lookup]) (simp add: g)
qed

lemma observer_steps:
  "(registry_step valid)\<^sup>*\<^sup>* (registry st) (registry (update_instance_port_policy E i policy st))"
  "(registry_step valid)\<^sup>*\<^sup>* (registry st) (registry (record_instance_health t ob st))"
  by (rule registry_edit [OF policy_lookup(1)], simp add: entry_of_def is_ready_def)
    (rule registry_edit [where i = "tg_id t" and f = "\<lambda>info. snd (apply_observation t ob info)"],
      simp_all add: record_health_lookup entry_of_def is_ready_def apply_observation_def set_health_def)

lemma forget_step: "registry_step valid (registry st) (registry (snd (forget_instance i (st\<lparr> st_kv := kv \<rparr>))))"
proof -
  have "registry (snd (forget_instance i (st\<lparr> st_kv := kv \<rparr>))) = (registry st)(i := None)"
    by (simp add: registry_def fun_eq_iff forget_lookup)
  then show ?thesis by (simp add: registry_step.leave)
qed

lemma removed_steps: "(registry_step valid)\<^sup>*\<^sup>* (registry st) (registry (snd (recycle_remove E stale n st)))"
proof (induction stale arbitrary: n st)
  case (Cons c rest)
  have "registry (snd (remove_instance E (fst c) st)) = (registry st)(fst c := None)"
    by (simp add: registry_def fun_eq_iff remove_instance_lookup)
  then have "registry_step valid (registry st) (registry (snd (remove_instance E (fst c) st)))"
    by (simp add: registry_step.leave)
  then show ?case
    using Cons.IH by (auto simp: recycle_remove_Cons intro: converse_rtranclp_into_rtranclp)
qed simp

lemma event_steps:
  assumes ok: "state_ok E (px_state p)" and ev: "\<not> is_reload ev"
  shows "(registry_step (valid_ip E (px_state p)))\<^sup>*\<^sup>* (registry (px_state p)) (registry (px_state (gw_handle E X ev p)))"
proof (cases ev)
  case (Register now h rq)
  have idx: "index_ok (st_state (px_state p))" using ok by (simp add: state_ok_def)
  show ?thesis
    by (rule register_cvm_cases [of E X now h rq p])
      (auto simp: Register intro: failed_step [OF idx] registered_step [OF ok])
next
  case (Remove_cvm i)
  then show ?thesis
    using forget_step [of "valid_ip E (px_state p)" "px_state p" i]
    by (auto simp: admin_remove_cvm_def remove_cvm_def request_wg_apply_def case_prod_beta on_kv_def
        intro: registry_unchanged split: sum.split)
next
  case (Recycle_stale stale)
  then show ?thesis using recycle_apply_result(2) [of E stale p] removed_steps by simp
next
  case (Connect A order mx target port)
  then show ?thesis
    by (auto intro!: registry_unchanged simp: select_lookup proxy_to_app_def on_state_def filter_allowed_addresses_def filter_ports_eq queue_all_def
      connect_app_def Let_def case_prod_beta split: sum.split)
next
  case (Reload now)
  then show ?thesis using ev by simp
qed (auto simp: on_state_def set_instance_port_policy_def set_instance_ready_def case_prod_beta operator_steps observer_steps
    intro: registry_unchanged split: option.split sum.split)

lemma run_steps:
  assumes "state_ok E (px_state p)" "list_all (\<lambda>ev. \<not> is_reload ev) events"
  shows "(registry_step (valid_ip E (px_state p)))\<^sup>*\<^sup>* (registry (px_state p)) (registry (px_state (gw_run E X events p)))"
  using assms
proof (induction events arbitrary: p)
  case (Cons ev events)
  let ?p = "gw_handle E X ev p"
  have ok: "state_ok E (px_state ?p)" using Cons.prems by (intro run_ok.event_inv) simp_all
  have "st_config (px_state ?p) = st_config (px_state p)" using run_config_eq [of E X "[ev]" p] by (simp add: gw_run_def)
  then have v: "valid_ip E (px_state ?p) = valid_ip E (px_state p)" by (rule valid_ip_config)
  show ?case
    using rtranclp_trans [OF event_steps [OF Cons.prems(1), of ev X] Cons.IH [OF ok, unfolded v]] Cons.prems(2)
    by (simp add: gw_run_def)
qed (simp add: gw_run_def)

lemma registry_steps_wf: "(registry_step valid)\<^sup>*\<^sup>* m m' \<Longrightarrow> registry_wf valid m \<Longrightarrow> registry_wf valid m'"
  by (induction rule: rtranclp_induct) (auto intro: registry_step_wf)

text \<open>
  C2. From its start to its first reload the gateway implements the abstract registry: however the events
  interleave, the registered instances, their apps, keys and addresses and the operator's decisions
  change only by the registry's steps, and so no two instances ever share a key or an address this
  node hands out.
\<close>

theorem gateway_refines_registry:
  assumes "started E p0" "list_all (\<lambda>ev. \<not> is_reload ev) events" "p = gw_run E X events p0"
  shows "(registry_step (valid_ip E (px_state p0)))\<^sup>*\<^sup>* (registry (px_state p0)) (registry (px_state p)) \<and>
    registry_wf (valid_ip E (px_state p0)) (registry (px_state p))"
  using run_steps [OF started_ok [OF assms(1)] assms(2), of X] registry_of_ok [OF started_ok [OF assms(1)]]
    registry_steps_wf unfolding assms(3) by blast


section \<open>Examples\<close>

text \<open>A gateway that starts on a store with two instances, on a request that names an instance in clear.\<close>

definition demo_records :: "mem_node KvStore" where
  "demo_records = demo_store [(''inst/a'', [1]), (''inst/b'', [2])]"

definition demo_loaded_info :: "string \<Rightarrow> char \<Rightarrow> ipv4 \<Rightarrow> nat \<Rightarrow> counter_ref \<Rightarrow> InstanceInfo" where
  "demo_loaded_info i c ip secs n = \<lparr> ii_id = i, ii_app_id = ''app'', ii_ip = ip, ii_public_key = demo_key c,
    ii_reg_time = int secs * 10 ^ 9, ii_port_policy = None, ii_port_policy_hash = [], ii_admin_port_policy = None,
    ii_ready = None, ii_health = \<lparr> h_gated = False, h_state = Ungated \<rparr>, ii_connections = n \<rparr>"

definition demo_table :: ProxyStateMut where
  "demo_table = default_state\<lparr> ps_apps := [(''app'', [''a'', ''b''])],
    ps_instances := [(''a'', demo_loaded_info ''a'' (CHR ''A'') 0x0A000009 20 0), (''b'', demo_loaded_info ''b'' (CHR ''B'') 0x0A00000A 10 1)],
    ps_allocated := [0x0A000009, 0x0A00000A] \<rparr>"

definition demo_boot :: "cidr Config \<Rightarrow> (cidr, mem_node) Proxy" where
  "demo_boot cfg = demo_proxy (demo_empty\<lparr> st_config := cfg, st_kv := demo_records, st_next_counter := 2, st_state := demo_table \<rparr>)"

text \<open>A node whose client range has no address to hand out.\<close>

definition demo_tiny :: "cidr Config" where
  "demo_tiny = demo_config\<lparr> cfg_wg := (cfg_wg demo_config)\<lparr> wg_client_ip_range := (0x0A000001, 32) \<rparr> \<rparr>"

lemma demo_table_built:
  "fst (build_state_from_kv_store demo_gw demo_config demo_now demo_records (load_all_instances (ge_kv demo_gw) demo_records) []) = demo_table"
  "fst (build_state_from_kv_store demo_gw demo_tiny demo_now demo_records (load_all_instances (ge_kv demo_gw) demo_records) []) = demo_table"
  by code_simp+

definition demo_rpc :: "unit rpc_ext" where
  "demo_rpc = \<lparr> decode_app_info = (\<lambda>_. Inl []), ensure_app_authorized = (\<lambda>_. Inr ()), hex_encode = map (\<lambda>b. char_of (unat b)) \<rparr>"

definition demo_request :: "byte \<Rightarrow> char \<Rightarrow> (mem_node, unit) gw_event" where
  "demo_request i k = Register 2000
    \<lparr> rh_remote_app_id = None, rh_remote_app_info =
        Some \<lparr> ap_app_id = [97, 112, 112], ap_instance_id = [i], ap_compose_hash = [104] \<rparr>, rh_attestation = None \<rparr>
    \<lparr> rq_client_public_key = demo_key k, rq_port_policy = None, rq_health_check = False \<rparr>"

lemma demo_boot_started: "started demo_gw (demo_boot demo_config)" "started demo_gw (demo_boot demo_tiny)"
proof -
  have "started demo_gw (demo_boot cfg)" if "fst (build_state_from_kv_store demo_gw cfg demo_now demo_records
      (load_all_instances (ge_kv demo_gw) demo_records) []) = demo_table" for cfg
    unfolding started_def demo_boot_def by (intro exI [of _ demo_now] exI [of _ demo_records] exI [of _ "[]"]) (simp add: demo_proxy_def that)
  then show "started demo_gw (demo_boot demo_config)" "started demo_gw (demo_boot demo_tiny)" using demo_table_built by simp_all
qed

text \<open>The operator restricts \<open>b\<close> to port 443, with a PROXY header; then a client asks for the app on that port.\<close>

definition demo_restrict :: "(mem_node, unit) gw_event list" where
  "demo_restrict = [Set_port_policy ''b'' (Some \<lparr> rp_ports = [\<lparr> pa_port = 443, pa_pp = True \<rparr>], rp_restrict_mode = True \<rparr>)]"

definition demo_args :: select_args where
  "demo_args = \<lparr> sa_tick = 5, sa_handshakes = Inr demo_hs, sa_handshakes_again = Inl [], sa_random = 0 \<rparr>"

definition demo_connected :: "route_error + AddressInfo \<times> bool" where
  "demo_connected = fst (proxy_to_app demo_args [(0, True)] 10 ''app'' 443 (gw_run demo_gw demo_rpc demo_restrict (demo_boot demo_config)))"

lemma demo_connected_eq:
  "demo_connected = Inr (\<lparr> ad_ip = 0x0A00000A, ad_counter = 1, ad_instance_id = ''b'' \<rparr>, True)"
  by code_simp


definition demo_removal :: "(mem_node, unit) gw_event list" where
  "demo_removal = [Remove_cvm ''a'']"

lemma demo_removal_facts:
  "Apply_taken \<notin> set demo_removal \<and> \<not> exhausts demo_gw demo_rpc demo_removal (demo_boot demo_config) \<and>
    list_all (\<lambda>ev. \<not> is_reload ev) demo_removal"
  by (simp add: demo_removal_def)

theorem peer_changes_are_requested_witness:
  "px_wg_pending (gw_run demo_gw demo_rpc demo_removal (demo_boot demo_config)) \<or>
    wg_peers demo_gw (px_state (gw_run demo_gw demo_rpc demo_removal (demo_boot demo_config))) =
    wg_peers demo_gw (px_state (demo_boot demo_config))"
proof -
  have boot: "demo_boot demo_config = gw_run demo_gw demo_rpc [] (demo_boot demo_config)" by (simp add: gw_run_def)
  show ?thesis using peer_changes_are_requested [OF demo_boot_started(1) boot, of demo_removal] demo_removal_facts by blast
qed

theorem gateway_refines_registry_witness:
  "registry_wf (valid_ip demo_gw (px_state (demo_boot demo_config)))
    (registry (px_state (gw_run demo_gw demo_rpc demo_removal (demo_boot demo_config))))"
  using gateway_refines_registry [OF demo_boot_started(1) _ refl] demo_removal_facts by blast


section \<open>Where the gateway falls short of its registry\<close>

definition demo_exchange :: "(mem_node, unit) gw_event list" where
  "demo_exchange = [Store_changed (demo_store [(''inst/a'', [2]), (''inst/b'', [1])]), Reload demo_now, demo_request 99 (CHR ''C'')]"

lemma demo_exchange_facts:
  "map (\<lambda>(i, info). (i, ii_ip info)) (ps_instances (st_state (px_state (gw_run demo_gw demo_rpc demo_exchange (demo_boot demo_config))))) =
    [(''a'', 0x0A00000A), (''b'', 0x0A000009), (''c'', 0x0A00000A)]"
  by code_simp

text \<open>
  C32. After a reload two instances can hold the same address: other nodes exchange the addresses of \<open>a\<close> and
  \<open>b\<close>, the reload leaves the address \<open>a\<close> now has unallocated, and the next registration is given it.
\<close>

theorem reload_then_duplicate_address:
  "let p = gw_run demo_gw demo_rpc demo_exchange (demo_boot demo_config)
   in started demo_gw (demo_boot demo_config) \<and> map_option ii_ip (instance_of (px_state p) ''a'') = Some 0x0A00000A \<and>
     map_option ii_ip (instance_of (px_state p) ''c'') = Some 0x0A00000A"
  using demo_exchange_facts demo_boot_started(1) unfolding Let_def instance_of_def
  by (auto simp: bt_get_def map_eq_Cons_conv)

definition demo_refused :: "(state_error + RegisterCvmResponse) \<times> (cidr, mem_node) Proxy" where
  "demo_refused = do_register_cvm demo_gw 2000 ''app'' ''a'' (demo_key (CHR ''Z'')) ''hash'' (reported_from None) (demo_boot demo_tiny)"

lemma demo_refused_facts:
  "(case demo_refused of (r, p) \<Rightarrow> (case r of Inl e \<Rightarrow> e = Ip_pool_exhausted | Inr _ \<Rightarrow> False) \<and> \<not> px_wg_pending p \<and>
    map (\<lambda>x. hd (wp_public_key x)) (wc_peers (generate_wg_config demo_gw (px_state p))) = [CHR ''Z'', CHR ''B''])"
  "map (\<lambda>x. hd (wp_public_key x)) (wc_peers (generate_wg_config demo_gw (px_state (demo_boot demo_tiny)))) = [CHR ''A'', CHR ''B'']"
  by code_simp+

text \<open>
  C33. A registration that fails for lack of addresses is not undone.  The node's range is exhausted; instance
  \<open>a\<close>, whose address is another node's, registers with a new key and is refused, but its record has
  already taken the key: the peers that would be rendered have changed, and nothing requests an apply.
\<close>

theorem failed_registration_changes_peer:
  "started demo_gw (demo_boot demo_tiny) \<and> fst demo_refused = Inl Ip_pool_exhausted \<and> \<not> px_wg_pending (snd demo_refused) \<and>
    wg_peers demo_gw (px_state (snd demo_refused)) \<noteq> wg_peers demo_gw (px_state (demo_boot demo_tiny))"
proof -
  have facts: "fst demo_refused = Inl Ip_pool_exhausted" "\<not> px_wg_pending (snd demo_refused)"
      "map (\<lambda>x. hd (wp_public_key x)) (wc_peers (generate_wg_config demo_gw (px_state (snd demo_refused)))) = [CHR ''Z'', CHR ''B'']"
    using demo_refused_facts(1) unfolding case_prod_beta by (cases "fst demo_refused"; simp)+
  have "(\<lambda>x. hd (wp_public_key x)) ` wg_peers demo_gw (px_state (snd demo_refused)) \<noteq>
      (\<lambda>x. hd (wp_public_key x)) ` wg_peers demo_gw (px_state (demo_boot demo_tiny))"
    using facts(3) demo_refused_facts(2) by (simp add: wg_peers_def flip: set_map) auto
  then have "wg_peers demo_gw (px_state (snd demo_refused)) \<noteq> wg_peers demo_gw (px_state (demo_boot demo_tiny))" by metis
  then show ?thesis using facts(1,2) demo_boot_started(2) by simp
qed

end
