(* ===== verification/Event_Log.thy ===== *)
theory Event_Log
  imports Dstack_Prelude
begin

text \<open>
  The runtime event log of a guest: \<^verbatim>\<open>cc-eventlog/src/runtime_events.rs\<close> (events, their digest
  preimages, the log file, replay into a measurement register) and \<^verbatim>\<open>cc-eventlog/src/tdx.rs\<close> (the
  event representation of the quotes: stripping, labelling, digest preimages and their validation).

  The hash functions (\<^verbatim>\<open>ez_hash\<close>, \<^verbatim>\<open>sha2\<close>), the hexadecimal codec (\<^verbatim>\<open>hex\<close>), the JSON
  codecs (\<^verbatim>\<open>serde_json\<close>, \<^verbatim>\<open>serde_jcs\<close>) are third-party packages: they are the fields of
  \<open>hasher\<close> and \<open>event_env\<close>, and what the theorems need of them is stated by the predicates
  \<open>collision_free\<close>, \<open>codec_ok\<close> and \<open>json_lines_ok\<close>.  A register value replayed from a log fixes the
  digest preimages of the log; for V2 events these fix name and payload, for V1 events only their
  concatenation with a colon.
\<close>

section \<open>Data\<close>

record hasher =
  hash_fn :: "bytes \<Rightarrow> bytes"
  out_len :: nat

datatype json = JStr string | JNum nat | JObj "(string \<times> json) list"

datatype event_log_version = V1 | V2

record runtime_event =
  rt_event :: string
  rt_payload :: bytes
  rt_version :: event_log_version

record event_env =
  env_sha384 :: hasher
  env_sha256 :: hasher
  hex_encode :: "bytes \<Rightarrow> string"
  hex_decode :: "string \<Rightarrow> bytes option"
  jcs_to_string :: "json \<Rightarrow> string"
  event_to_json :: "runtime_event \<Rightarrow> string option"
  event_from_json :: "string \<Rightarrow> runtime_event option"

definition DSTACK_RUNTIME_EVENT_TYPE :: nat where
  "DSTACK_RUNTIME_EVENT_TYPE = 0x08000001"

definition zeros :: "hasher \<Rightarrow> bytes" where
  "zeros H = replicate (out_len H) 0"

definition is_v1 :: "event_log_version \<Rightarrow> bool" where
  "is_v1 v = (v = V1)"

definition version_from_u32 :: "nat \<Rightarrow> event_log_version option" where
  "version_from_u32 v = (if v = 1 then Some V1 else if v = 2 then Some V2 else None)"

definition version_to_u32 :: "event_log_version \<Rightarrow> nat" where
  "version_to_u32 v = (case v of V1 \<Rightarrow> 1 | V2 \<Rightarrow> 2)"

section \<open>Digests and replay\<close>

definition COLON :: byte where
  "COLON = 0x3a"

definition canonical_event_json_v2 :: "event_env \<Rightarrow> string \<Rightarrow> bytes \<Rightarrow> string" where
  "canonical_event_json_v2 E event payload =
    jcs_to_string E (JObj
      [(''name'', JStr event), (''type'', JNum DSTACK_RUNTIME_EVENT_TYPE),
       (''payload'', JStr (hex_encode E payload))])"

definition preimage :: "event_env \<Rightarrow> runtime_event \<Rightarrow> bytes" where
  "preimage E e =
    (case rt_version e of
       V1 \<Rightarrow> nat_le 4 DSTACK_RUNTIME_EVENT_TYPE @ [COLON] @ str_bytes (rt_event e) @ [COLON] @ rt_payload e
     | V2 \<Rightarrow> str_bytes (canonical_event_json_v2 E (rt_event e) (rt_payload e)))"

definition digest :: "event_env \<Rightarrow> hasher \<Rightarrow> runtime_event \<Rightarrow> bytes" where
  "digest E H e = hash_fn H (preimage E e)"

definition sha384_digest :: "event_env \<Rightarrow> runtime_event \<Rightarrow> bytes" where
  "sha384_digest E e = digest E (env_sha384 E) e"

definition sha256_digest :: "event_env \<Rightarrow> runtime_event \<Rightarrow> bytes" where
  "sha256_digest E e = digest E (env_sha256 E) e"

fun replay_loop :: "event_env \<Rightarrow> hasher \<Rightarrow> bytes \<Rightarrow> runtime_event list \<Rightarrow> string option \<Rightarrow> bytes" where
  "replay_loop E H mr [] to_event = mr"
| "replay_loop E H mr (e # es) to_event =
    (let mr' = hash_fn H (mr @ digest E H e)
     in if to_event = Some (rt_event e) then mr' else replay_loop E H mr' es to_event)"

definition replay_events :: "event_env \<Rightarrow> hasher \<Rightarrow> runtime_event list \<Rightarrow> string option \<Rightarrow> bytes" where
  "replay_events E H eventlog to_event = replay_loop E H (zeros H) eventlog to_event"

section \<open>The log file\<close>

text \<open>
  \<^verbatim>\<open>str::lines\<close>: the text between line feeds without a trailing carriage return; what follows the
  last line feed is a line only when it is not empty.
\<close>

definition strip_cr :: "string \<Rightarrow> string" where
  "strip_cr l = (if l \<noteq> [] \<and> last l = CHR 0x0D then butlast l else l)"

fun lines_acc :: "string \<Rightarrow> string \<Rightarrow> string list" where
  "lines_acc cur [] = (if cur = [] then [] else [rev cur])"
| "lines_acc cur (c # cs) = (if c = CHR 0x0A then strip_cr (rev cur) # lines_acc [] cs else lines_acc (c # cur) cs)"

definition str_lines :: "string \<Rightarrow> string list" where
  "str_lines s = lines_acc [] s"

definition blank :: "string \<Rightarrow> bool" where
  "blank l = list_all char_is_whitespace (utf8_chars l)"

datatype log_error = Log_read | Log_decode

fun read_lines :: "event_env \<Rightarrow> string list \<Rightarrow> (log_error + runtime_event list)" where
  "read_lines E [] = Inr []"
| "read_lines E (l # ls) =
    (if blank l then read_lines E ls
     else rbind (ok_or Log_decode (event_from_json E l)) (\<lambda>e.
          rbind (read_lines E ls) (\<lambda>es. Inr (e # es))))"

text \<open>Reading the file gives its text, or says that it does not exist, or fails otherwise.\<close>

datatype file_read = File_text string | File_missing | File_failed

definition read_all :: "event_env \<Rightarrow> file_read \<Rightarrow> (log_error + runtime_event list)" where
  "read_all E f =
    (case f of File_missing \<Rightarrow> Inr [] | File_failed \<Rightarrow> Inl Log_read | File_text s \<Rightarrow> read_lines E (str_lines s))"

text \<open>
  Appending an event to the file.  The operating system decides whether the directory can be made, the
  file opened, and for each of the two writes whether it completes or fails after some bytes.
\<close>

datatype write_result = Written | Write_failed nat

record append_io =
  io_dir_ok :: bool
  io_open_ok :: bool
  io_line :: write_result
  io_newline :: write_result

datatype emit_error = Emit_serialize | Emit_dir | Emit_open | Emit_write

definition put_text :: "write_result \<Rightarrow> string \<Rightarrow> string \<Rightarrow> string" where
  "put_text w t file = file @ (case w of Written \<Rightarrow> t | Write_failed n \<Rightarrow> take n t)"

definition emit :: "event_env \<Rightarrow> append_io \<Rightarrow> runtime_event \<Rightarrow> string option \<Rightarrow> string option \<times> (emit_error + unit)" where
  "emit E io e file =
    (case event_to_json E e of None \<Rightarrow> (file, Inl Emit_serialize) | Some logline \<Rightarrow>
       if \<not> io_dir_ok io then (file, Inl Emit_dir)
       else if \<not> io_open_ok io then (file, Inl Emit_open)
       else let opened = (case file of None \<Rightarrow> [] | Some t \<Rightarrow> t);
                line = put_text (io_line io) logline opened
            in if io_line io \<noteq> Written then (Some line, Inl Emit_write)
               else let done = put_text (io_newline io) [CHR 0x0A] line
                    in (Some done, if io_newline io = Written then Inr () else Inl Emit_write))"

definition log_text :: "string option \<Rightarrow> file_read" where
  "log_text file = (case file of None \<Rightarrow> File_missing | Some t \<Rightarrow> File_text t)"

section \<open>Events as quotes carry them\<close>

record tdx_event =
  te_imr :: nat
  te_type :: nat
  te_digest :: bytes
  te_event :: string
  te_payload :: bytes
  te_version :: event_log_version
  te_preimage :: "string option"

definition TDX_ACPI_DATA_EVENT_TYPE :: nat where
  "TDX_ACPI_DATA_EVENT_TYPE = 10"

definition TDX_ACPI_DATA_EVENT_PAYLOAD :: bytes where
  "TDX_ACPI_DATA_EVENT_PAYLOAD = str_bytes ''ACPI DATA''"

definition TDX_ACPI_DATA_EVENT_NAMES :: "string list" where
  "TDX_ACPI_DATA_EVENT_NAMES = [''acpi-loader'', ''acpi-rsdp'', ''acpi-tables'']"

definition tdx_event_new :: "nat \<Rightarrow> nat \<Rightarrow> string \<Rightarrow> bytes \<Rightarrow> tdx_event" where
  "tdx_event_new imr event_type event event_payload =
    \<lparr> te_imr = imr, te_type = event_type, te_digest = [], te_event = event, te_payload = event_payload,
      te_version = V1, te_preimage = None \<rparr>"

definition is_runtime_event :: "tdx_event \<Rightarrow> bool" where
  "is_runtime_event e = (te_type e = DSTACK_RUNTIME_EVENT_TYPE)"

definition to_runtime_event :: "tdx_event \<Rightarrow> runtime_event option" where
  "to_runtime_event e =
    (if is_runtime_event e
     then Some \<lparr> rt_event = te_event e, rt_payload = te_payload e, rt_version = te_version e \<rparr> else None)"

definition stripped :: "tdx_event \<Rightarrow> tdx_event" where
  "stripped e = (if is_runtime_event e then e else e\<lparr> te_payload := [] \<rparr>)"

definition fill_preimage :: "event_env \<Rightarrow> tdx_event \<Rightarrow> tdx_event" where
  "fill_preimage E e =
    (if te_preimage e \<noteq> None then e
     else case to_runtime_event e of None \<Rightarrow> e
          | Some r \<Rightarrow> e\<lparr> te_preimage := Some (hex_encode E (preimage E r)) \<rparr>)"

definition tdx_digest :: "event_env \<Rightarrow> tdx_event \<Rightarrow> bytes" where
  "tdx_digest E e = (case to_runtime_event e of Some r \<Rightarrow> sha384_digest E r | None \<Rightarrow> te_digest e)"

definition tdx_of_runtime :: "event_env \<Rightarrow> runtime_event \<Rightarrow> tdx_event" where
  "tdx_of_runtime E r =
    \<lparr> te_imr = 3, te_type = DSTACK_RUNTIME_EVENT_TYPE, te_digest = sha384_digest E r, te_event = rt_event r,
      te_payload = rt_payload r, te_version = rt_version r, te_preimage = None \<rparr>"

definition fill_v2_preimages :: "event_env \<Rightarrow> tdx_event list \<Rightarrow> tdx_event list" where
  "fill_v2_preimages E events = map (\<lambda>e. if te_version e = V2 then fill_preimage E e else e) events"

datatype preimage_error =
  Preimage_missing nat | Preimage_malformed nat | Digest_mismatch nat | Not_canonical nat

definition validate_event :: "event_env \<Rightarrow> nat \<Rightarrow> tdx_event \<Rightarrow> (preimage_error + unit)" where
  "validate_event E index e =
    (if \<not> is_runtime_event e \<or> te_version e \<noteq> V2 then Inr ()
     else case te_preimage e of None \<Rightarrow> Inl (Preimage_missing index) | Some supplied_hex \<Rightarrow>
       (case hex_decode E supplied_hex of None \<Rightarrow> Inl (Preimage_malformed index) | Some supplied \<Rightarrow>
          if hash_fn (env_sha384 E) supplied \<noteq> te_digest e then Inl (Digest_mismatch index)
          else case to_runtime_event e of None \<Rightarrow> Inr ()
               | Some r \<Rightarrow> if supplied \<noteq> preimage E r then Inl (Not_canonical index) else Inr ()))"

fun validate_loop :: "event_env \<Rightarrow> nat \<Rightarrow> tdx_event list \<Rightarrow> (preimage_error + unit)" where
  "validate_loop E i [] = Inr ()"
| "validate_loop E i (e # es) = rbind (validate_event E i e) (\<lambda>_. validate_loop E (Suc i) es)"

definition validate_v2_preimages :: "event_env \<Rightarrow> tdx_event list \<Rightarrow> (preimage_error + unit)" where
  "validate_v2_preimages E events = validate_loop E 0 events"

definition is_tdx_acpi_data_event :: "tdx_event \<Rightarrow> bool" where
  "is_tdx_acpi_data_event e =
    (te_imr e = 0 \<and> te_type e = TDX_ACPI_DATA_EVENT_TYPE \<and> te_payload e = TDX_ACPI_DATA_EVENT_PAYLOAD)"

fun label_loop :: "nat \<Rightarrow> tdx_event list \<Rightarrow> tdx_event list" where
  "label_loop idx [] = []"
| "label_loop idx (e # es) =
    (if is_tdx_acpi_data_event e
     then (case get_index TDX_ACPI_DATA_EVENT_NAMES idx of Some name \<Rightarrow> e\<lparr> te_event := name \<rparr> | None \<Rightarrow> e)
            # label_loop (Suc idx) es
     else e # label_loop idx es)"

definition label_tdx_acpi_data_events :: "tdx_event list \<Rightarrow> tdx_event list" where
  "label_tdx_acpi_data_events event_logs = label_loop 0 event_logs"

section \<open>What the external code guarantees\<close>

text \<open>The hash function on a given set of inputs: fixed output width, no collision, and no input that
  hashes to the reset value of the register.\<close>

definition collision_free :: "hasher \<Rightarrow> bytes set \<Rightarrow> bool" where
  "collision_free H S =
    (inj_on (hash_fn H) S \<and> (\<forall>x\<in>S. length (hash_fn H x) = out_len H \<and> hash_fn H x \<noteq> zeros H))"

text \<open>Everything that is hashed while a log is replayed.\<close>

fun hashed_loop :: "event_env \<Rightarrow> hasher \<Rightarrow> bytes \<Rightarrow> runtime_event list \<Rightarrow> bytes list" where
  "hashed_loop E H mr [] = []"
| "hashed_loop E H mr (e # es) =
    preimage E e # (mr @ digest E H e) # hashed_loop E H (hash_fn H (mr @ digest E H e)) es"

definition hashed :: "event_env \<Rightarrow> hasher \<Rightarrow> runtime_event list \<Rightarrow> bytes list" where
  "hashed E H es = hashed_loop E H (zeros H) es"

abbreviation event_object :: "string \<Rightarrow> string \<Rightarrow> json" where
  "event_object name hex \<equiv>
    JObj [(''name'', JStr name), (''type'', JNum DSTACK_RUNTIME_EVENT_TYPE), (''payload'', JStr hex)]"

text \<open>Hexadecimal text decodes to what was encoded; canonical JSON of an object starts with a brace and
  determines the strings in it.\<close>

definition codec_ok :: "event_env \<Rightarrow> bool" where
  "codec_ok E =
    ((\<forall>p. hex_decode E (hex_encode E p) = Some p) \<and>
     (\<forall>n h n' h'. jcs_to_string E (event_object n h) = jcs_to_string E (event_object n' h') \<longrightarrow> n = n' \<and> h = h') \<and>
     (\<forall>kvs. \<exists>r. jcs_to_string E (JObj kvs) = CHR ''{'' # r))"

text \<open>An event serialises to one line of JSON text that reads back as the event.\<close>

definition json_lines_ok :: "event_env \<Rightarrow> bool" where
  "json_lines_ok E =
    (\<forall>e l. event_to_json E e = Some l \<longrightarrow>
       event_from_json E l = Some e \<and> (\<exists>m. l = ''{'' @ m @ ''}'' \<and> CHR 0x0A \<notin> set m))"

section \<open>Replay\<close>

abbreviation extend :: "event_env \<Rightarrow> hasher \<Rightarrow> bytes \<Rightarrow> runtime_event \<Rightarrow> bytes" where
  "extend E H mr e \<equiv> hash_fn H (mr @ digest E H e)"

lemma replay_loop_None: "replay_loop E H mr es None = foldl (extend E H) mr es"
  by (induction es arbitrary: mr) (simp_all add: Let_def)

lemma replay_None: "replay_events E H es None = foldl (extend E H) (zeros H) es"
  by (simp add: replay_events_def replay_loop_None)

lemma replay_snoc [simp]:
  "replay_events E H (es @ [e]) None = extend E H (replay_events E H es None) e"
  by (simp add: replay_None)

lemma replay_Nil [simp]: "replay_events E H [] None = zeros H"
  by (simp add: replay_None)

text \<open>Replaying up to a named event replays the log up to and including its first occurrence.\<close>

fun upto_event :: "string \<Rightarrow> runtime_event list \<Rightarrow> runtime_event list" where
  "upto_event n [] = []"
| "upto_event n (e # es) = (if rt_event e = n then [e] else e # upto_event n es)"

lemma replay_upto: "replay_events E H es (Some n) = replay_events E H (upto_event n es) None"
proof -
  have "replay_loop E H mr es (Some n) = replay_loop E H mr (upto_event n es) None" for mr
    by (induction es arbitrary: mr) (auto simp: Let_def)
  then show ?thesis
    by (simp add: replay_events_def)
qed

lemma hashed_snoc:
  "set (hashed E H (es @ [e])) =
    insert (preimage E e) (insert (replay_events E H es None @ digest E H e) (set (hashed E H es)))"
proof -
  have "set (hashed_loop E H mr (es @ [e])) =
      insert (preimage E e) (insert (foldl (extend E H) mr es @ digest E H e) (set (hashed_loop E H mr es)))" for mr
    by (induction es arbitrary: mr) auto
  then show ?thesis
    by (simp add: hashed_def replay_None)
qed

lemma hashed_Nil [simp]: "hashed E H [] = []"
  by (simp add: hashed_def)

lemma collision_free_mono: "collision_free H S \<Longrightarrow> T \<subseteq> S \<Longrightarrow> collision_free H T"
  unfolding collision_free_def by (meson inj_on_subset subsetD)

lemma replay_length:
  assumes "collision_free H S" "set (hashed E H es) \<subseteq> S"
  shows "length (replay_events E H es None) = out_len H"
  using assms by (cases es rule: rev_cases) (auto simp: hashed_snoc collision_free_def zeros_def)

lemma replay_not_zeros:
  assumes "collision_free H S" "set (hashed E H es) \<subseteq> S" "es \<noteq> []"
  shows "replay_events E H es None \<noteq> zeros H"
  using assms by (cases es rule: rev_cases) (auto simp: hashed_snoc collision_free_def)

lemma replay_binds_preimages:
  assumes "collision_free H S" "set (hashed E H xs) \<subseteq> S" "set (hashed E H ys) \<subseteq> S"
    and "replay_events E H xs None = replay_events E H ys None"
  shows "map (preimage E) xs = map (preimage E) ys"
  using assms(2-)
proof (induction xs arbitrary: ys rule: rev_induct)
  case Nil
  then show ?case
    using replay_not_zeros[OF assms(1), of E ys] by (cases "ys = []") auto
next
  case (snoc x xs)
  obtain ys' y where ys: "ys = ys' @ [y]"
    using snoc.prems replay_not_zeros[OF assms(1), of E "xs @ [x]"]
    by (cases ys rule: rev_cases) (simp_all del: replay_snoc add: replay_None)
  have inj: "a \<in> S \<Longrightarrow> b \<in> S \<Longrightarrow> hash_fn H a = hash_fn H b \<Longrightarrow> a = b" for a b
    using assms(1) by (meson collision_free_def inj_onD)
  have sub: "set (hashed E H xs) \<subseteq> S" "set (hashed E H ys') \<subseteq> S"
    and ins: "preimage E x \<in> S" "preimage E y \<in> S"
      "replay_events E H xs None @ digest E H x \<in> S" "replay_events E H ys' None @ digest E H y \<in> S"
    using snoc.prems by (auto simp: ys hashed_snoc)
  have "replay_events E H xs None @ digest E H x = replay_events E H ys' None @ digest E H y"
    by (rule inj[OF ins(3,4)]) (use snoc.prems(3) in \<open>simp add: ys\<close>)
  then have "replay_events E H xs None = replay_events E H ys' None \<and> digest E H x = digest E H y"
    using replay_length[OF assms(1)] sub by simp
  then show ?case
    using snoc.IH[OF sub] inj[OF ins(1,2)] by (simp add: ys digest_def)
qed

section \<open>Preimages\<close>

lemma type_bytes: "nat_le 4 DSTACK_RUNTIME_EVENT_TYPE = [1, 0, 0, 8]"
  by code_simp

lemma str_bytes_append [simp]: "str_bytes (s @ t) = str_bytes s @ str_bytes t"
  by (simp add: str_bytes_def)

lemma str_bytes_Cons [simp]: "str_bytes (c # s) = of_char c # str_bytes s"
  by (simp add: str_bytes_def)

lemma str_bytes_Nil [simp]: "str_bytes [] = []"
  by (simp add: str_bytes_def)

text \<open>Two events have the same digest preimage when they are the same V2 event, or V1 events whose name
  and payload joined by a colon are the same bytes.\<close>

definition joined :: "runtime_event \<Rightarrow> bytes" where
  "joined e = str_bytes (rt_event e) @ [COLON] @ rt_payload e"

lemma codec_okD:
  assumes "codec_ok E"
  shows hex_round_trip: "hex_decode E (hex_encode E p) = Some p"
    and jcs_event: "jcs_to_string E (event_object n h) = jcs_to_string E (event_object n' h') \<longleftrightarrow> n = n' \<and> h = h'"
    and jcs_brace: "\<exists>r. jcs_to_string E (JObj kvs) = CHR ''{'' # r"
proof -
  note parts = assms[unfolded codec_ok_def]
  show "hex_decode E (hex_encode E p) = Some p"
    using parts by (elim conjE) (rule spec)
  show "jcs_to_string E (event_object n h) = jcs_to_string E (event_object n' h') \<longleftrightarrow> n = n' \<and> h = h'"
    using conjunct1[OF conjunct2[OF parts], rule_format, of n h n' h'] by (intro iffI) simp_all
  show "\<exists>r. jcs_to_string E (JObj kvs) = CHR ''{'' # r"
    using parts by (elim conjE) (rule spec)
qed

lemma hex_inj: "codec_ok E \<Longrightarrow> hex_encode E p = hex_encode E q \<longleftrightarrow> p = q"
  by (metis hex_round_trip option.inject)

lemma preimage_eq:
  assumes "codec_ok E"
  shows "preimage E d = preimage E e \<longleftrightarrow>
    rt_version d = rt_version e \<and>
    (if rt_version d = V1 then joined d = joined e else rt_event d = rt_event e \<and> rt_payload d = rt_payload e)"
proof -
  have brace: "\<exists>r. preimage E e = 123 # r" if "rt_version e = V2" for e
    using jcs_brace[OF assms, of "[(''name'', JStr (rt_event e)), (''type'', JNum DSTACK_RUNTIME_EVENT_TYPE),
        (''payload'', JStr (hex_encode E (rt_payload e)))]"] that
    by (auto simp: preimage_def canonical_event_json_v2_def)
  have v1: "preimage E e = [1, 0, 0, 8, COLON] @ joined e" if "rt_version e = V1" for e
    using that by (simp add: preimage_def type_bytes joined_def)
  have v2: "preimage E d = preimage E e \<longleftrightarrow> rt_event d = rt_event e \<and> rt_payload d = rt_payload e"
    if "rt_version d = V2" "rt_version e = V2"
    using that by (simp add: preimage_def canonical_event_json_v2_def jcs_event[OF assms] hex_inj[OF assms])
  show ?thesis
  proof (cases "rt_version d"; cases "rt_version e")
    assume "rt_version d = V1" "rt_version e = V1"
    then show ?thesis
      by (simp add: v1)
  next
    assume "rt_version d = V1" "rt_version e = V2"
    then show ?thesis
      using brace[of e] by (auto simp: v1)
  next
    assume "rt_version d = V2" "rt_version e = V1"
    then show ?thesis
      using brace[of d] by (auto simp: v1)
  qed (simp add: v2)
qed

definition same_measured :: "runtime_event \<Rightarrow> runtime_event \<Rightarrow> bool" where
  "same_measured d e =
    (rt_version d = rt_version e \<and> (if rt_version d = V1 then joined d = joined e else d = e))"

lemma runtime_event_eq:
  fixes d e :: runtime_event
  shows "d = e \<longleftrightarrow> rt_event d = rt_event e \<and> rt_payload d = rt_payload e \<and> rt_version d = rt_version e"
  by (cases d; cases e) simp

lemma preimage_eq_measured: "codec_ok E \<Longrightarrow> preimage E d = preimage E e \<longleftrightarrow> same_measured d e"
  by (auto simp: preimage_eq same_measured_def runtime_event_eq)

lemma append_Cons_unique:
  "xs @ a # us = ys @ a # vs \<Longrightarrow> a \<notin> set xs \<Longrightarrow> a \<notin> set ys \<Longrightarrow> xs = ys \<and> us = vs"
  by (induction xs arbitrary: ys) (case_tac ys; auto)+

definition plain_name :: "runtime_event \<Rightarrow> bool" where
  "plain_name e = (COLON \<notin> set (str_bytes (rt_event e)))"

lemma same_measured_plain: "same_measured d e \<Longrightarrow> plain_name d \<Longrightarrow> plain_name e \<Longrightarrow> d = e"
  using append_Cons_unique[of "str_bytes (rt_event d)" COLON "rt_payload d" "str_bytes (rt_event e)" "rt_payload e"]
  by (auto simp: same_measured_def joined_def plain_name_def runtime_event_eq split: if_splits)

lemma list_all2_same_eq:
  "list_all2 same_measured xs ys \<Longrightarrow>
    (\<And>d e. d \<in> set xs \<Longrightarrow> e \<in> set ys \<Longrightarrow> same_measured d e \<Longrightarrow> d = e) \<Longrightarrow> xs = ys"
  by (induction rule: list_all2_induct) auto

lemma map_eq_list_all2: "map f xs = map f ys \<longleftrightarrow> list_all2 (\<lambda>x y. f x = f y) xs ys"
  by (auto simp: list_eq_iff_nth_eq list_all2_conv_all_nth)

section \<open>The log file\<close>

lemma lines_acc_line:
  "CHR 0x0A \<notin> set l \<Longrightarrow> lines_acc cur (l @ CHR 0x0A # t) = strip_cr (rev cur @ l) # lines_acc [] t"
  by (induction l arbitrary: cur) auto

lemma str_lines_Cons: "CHR 0x0A \<notin> set l \<Longrightarrow> str_lines (l @ CHR 0x0A # t) = strip_cr l # str_lines t"
  by (simp add: str_lines_def lines_acc_line)

lemma utf8_chars_brace: "utf8_chars (CHR ''{'' # s) = 123 # utf8_chars s"
  by (simp add: utf8_chars_def Let_def)

lemma json_line:
  assumes "json_lines_ok E" "event_to_json E e = Some l"
  shows "event_from_json E l = Some e" "CHR 0x0A \<notin> set l" "\<not> blank l" "strip_cr l = l"
proof -
  obtain m where l: "l = ''{'' @ m @ ''}''" "CHR 0x0A \<notin> set m" and e: "event_from_json E l = Some e"
    using assms unfolding json_lines_ok_def by blast
  show "event_from_json E l = Some e" "CHR 0x0A \<notin> set l" "\<not> blank l" "strip_cr l = l"
    using l e by (auto simp: blank_def utf8_chars_brace char_is_whitespace_def strip_cr_def)
qed

text \<open>The text of a log whose lines are the given events.\<close>

fun log_of :: "event_env \<Rightarrow> runtime_event list \<Rightarrow> string" where
  "log_of E [] = []"
| "log_of E (e # es) = the (event_to_json E e) @ CHR 0x0A # log_of E es"

lemma log_of_append [simp]: "log_of E (xs @ ys) = log_of E xs @ log_of E ys"
  by (induction xs) auto

lemma read_log_of:
  assumes "json_lines_ok E" "\<forall>e\<in>set es. event_to_json E e \<noteq> None"
  shows "read_all E (File_text (log_of E es)) = Inr es"
proof -
  have "read_lines E (str_lines (log_of E es)) = Inr es"
    using assms(2)
  proof (induction es)
    case Nil
    then show ?case
      by (simp add: str_lines_def)
  next
    case (Cons e es)
    then obtain l where "event_to_json E e = Some l"
      by auto
    then show ?case
      using Cons json_line[OF assms(1)] by (simp add: str_lines_Cons)
  qed
  then show ?thesis
    by (simp add: read_all_def)
qed

lemma emit_unchanged:
  "emit E io e file = (file', Inl err) \<Longrightarrow> io_line io = Write_failed 0 \<or> err \<noteq> Emit_write \<Longrightarrow>
    file' = file \<or> file = None \<and> file' = Some []"
  by (auto simp: emit_def put_text_def Let_def split: option.splits if_splits)

lemma emit_appends:
  assumes "emit E io e file = (file', Inr ())"
  shows "event_to_json E e \<noteq> None \<and> file' = Some ((case file of None \<Rightarrow> [] | Some t \<Rightarrow> t) @ log_of E [e])"
  using assms by (auto simp: emit_def put_text_def Let_def split: option.splits if_splits)

section \<open>Validation of digest preimages\<close>

lemma to_runtime_event_Some:
  "is_runtime_event e \<Longrightarrow>
    to_runtime_event e = Some \<lparr> rt_event = te_event e, rt_payload = te_payload e, rt_version = te_version e \<rparr>"
  by (simp add: to_runtime_event_def)

definition bound_event :: "event_env \<Rightarrow> tdx_event \<Rightarrow> bool" where
  "bound_event E e =
    (\<exists>r h. to_runtime_event e = Some r \<and> te_preimage e = Some h \<and> hex_decode E h = Some (preimage E r) \<and>
       te_digest e = sha384_digest E r)"

lemma validate_event_iff:
  "validate_event E i e = Inr () \<longleftrightarrow> (is_runtime_event e \<and> te_version e = V2 \<longrightarrow> bound_event E e)"
  by (auto simp: validate_event_def bound_event_def to_runtime_event_Some sha384_digest_def digest_def
      split: option.splits)

lemma validate_iff:
  "validate_v2_preimages E es = Inr () \<longleftrightarrow>
    (\<forall>e\<in>set es. is_runtime_event e \<and> te_version e = V2 \<longrightarrow> bound_event E e)"
proof -
  have "validate_loop E i es = Inr () \<longleftrightarrow>
      (\<forall>e\<in>set es. is_runtime_event e \<and> te_version e = V2 \<longrightarrow> bound_event E e)" for i
    by (induction es arbitrary: i) (auto simp: res_simps validate_event_iff)
  then show ?thesis
    by (simp add: validate_v2_preimages_def)
qed

lemma fill_bound:
  assumes "codec_ok E" "te_preimage e = None" "to_runtime_event e = Some r" "te_digest e = sha384_digest E r"
  shows "bound_event E (fill_preimage E e)"
  using assms hex_round_trip[OF assms(1)]
  by (simp add: bound_event_def fill_preimage_def to_runtime_event_def is_runtime_event_def split: if_splits)

lemma fill_fields [simp]:
  "te_version (fill_preimage E e) = te_version e" "te_digest (fill_preimage E e) = te_digest e"
  "to_runtime_event (fill_preimage E e) = to_runtime_event e"
  "is_runtime_event (fill_preimage E e) = is_runtime_event e"
  by (auto simp: fill_preimage_def to_runtime_event_def is_runtime_event_def split: option.splits)

lemma tdx_of_runtime_fields [simp]:
  "to_runtime_event (tdx_of_runtime E r) = Some r" "is_runtime_event (tdx_of_runtime E r)"
  "te_digest (tdx_of_runtime E r) = sha384_digest E r" "te_preimage (tdx_of_runtime E r) = None"
  "te_version (tdx_of_runtime E r) = rt_version r" "te_imr (tdx_of_runtime E r) = 3"
  by (simp_all add: tdx_of_runtime_def to_runtime_event_def is_runtime_event_def)

lemma read_log_validates:
  assumes "codec_ok E" "\<forall>e\<in>set boot. \<not> is_runtime_event e"
  shows "validate_v2_preimages E (fill_v2_preimages E (boot @ map (tdx_of_runtime E) rs)) = Inr ()"
  using assms by (auto simp: validate_iff fill_v2_preimages_def intro!: fill_bound)

section \<open>A concrete environment\<close>

text \<open>Small executable codecs and a two-byte hash (length and sum of the input) that meet the hypotheses above
  on the inputs they are used with.\<close>

definition hex_digit :: "nat \<Rightarrow> char" where
  "hex_digit n = ''0123456789abcdef'' ! n"

definition hex_value :: "char \<Rightarrow> nat" where
  "hex_value c = length (takeWhile (\<lambda>d. d \<noteq> c) ''0123456789abcdef'')"

fun demo_hex :: "bytes \<Rightarrow> string" where
  "demo_hex [] = []"
| "demo_hex (b # bs) = hex_digit (unat b div 16) # hex_digit (unat b mod 16) # demo_hex bs"

fun demo_unhex :: "string \<Rightarrow> bytes option" where
  "demo_unhex [] = Some []"
| "demo_unhex [c] = None"
| "demo_unhex (c # d # s) =
    (if hex_value c < 16 \<and> hex_value d < 16
     then map_option (\<lambda>bs. of_nat (hex_value c * 16 + hex_value d) # bs) (demo_unhex s) else None)"

fun demo_jcs :: "json \<Rightarrow> string" where
  "demo_jcs (JObj [(a, JStr n), (b, JNum t), (c, JStr h)]) =
    ''{'' @ replicate (length n) CHR ''1'' @ ''0'' @ n @ h @ ''}''"
| "demo_jcs _ = ''{}''"

definition demo_to_json :: "runtime_event \<Rightarrow> string option" where
  "demo_to_json e =
    Some (''{'' @ ((if rt_version e = V1 then CHR ''1'' else CHR ''2'') # demo_hex (str_bytes (rt_event e)) @
      '':'' @ demo_hex (rt_payload e)) @ ''}'')"

definition demo_from_json :: "string \<Rightarrow> runtime_event option" where
  "demo_from_json l =
    (case l of b # v # s \<Rightarrow>
      (case (demo_unhex (takeWhile (\<lambda>c. c \<noteq> CHR '':'') s), demo_unhex (butlast (tl (dropWhile (\<lambda>c. c \<noteq> CHR '':'') s)))) of
         (Some n, Some p) \<Rightarrow>
           Some \<lparr> rt_event = map (\<lambda>b. char_of (unat b)) n, rt_payload = p,
                  rt_version = (if v = CHR ''1'' then V1 else V2) \<rparr>
       | _ \<Rightarrow> None)
     | _ \<Rightarrow> None)"

definition demo_hash :: hasher where
  "demo_hash = \<lparr> hash_fn = (\<lambda>x. [of_nat (length x), foldl (+) 0 x]), out_len = 2 \<rparr>"

definition demo_env :: event_env where
  "demo_env = \<lparr> env_sha384 = demo_hash, env_sha256 = demo_hash, hex_encode = demo_hex, hex_decode = demo_unhex,
     jcs_to_string = demo_jcs, event_to_json = demo_to_json, event_from_json = demo_from_json \<rparr>"

lemma hex_digit_props:
  assumes "n < 16"
  shows "hex_value (hex_digit n) = n \<and> hex_digit n \<noteq> CHR 0x0A \<and> hex_digit n \<noteq> CHR '':''"
proof -
  have "\<forall>n\<in>set [0..<16]. hex_value (hex_digit n) = n \<and> hex_digit n \<noteq> CHR 0x0A \<and> hex_digit n \<noteq> CHR '':''"
    by code_simp
  then show ?thesis
    using assms by simp
qed

lemma nibbles: "unat (b :: byte) div 16 < 16" "unat b mod 16 < 16" "of_nat (unat b div 16 * 16 + unat b mod 16) = b"
  using byte_less[of b] by (simp_all add: less_mult_imp_div_less)

lemma demo_unhex_hex [simp]: "demo_unhex (demo_hex p) = Some p"
  by (induction p) (simp_all only: demo_hex.simps demo_unhex.simps hex_digit_props nibbles simp_thms if_True option.map)

lemma demo_hex_chars: "c \<in> set (demo_hex p) \<Longrightarrow> c \<noteq> CHR 0x0A \<and> c \<noteq> CHR '':''"
  by (induction p) (auto simp: hex_digit_props nibbles)

lemma demo_codec: "codec_ok demo_env"
proof -
  have inj: "n = n' \<and> h = h'"
    if "demo_jcs (event_object n h) = demo_jcs (event_object n' h')" for n h n' h'
  proof -
    have "replicate (length n) CHR ''1'' @ CHR ''0'' # n @ h @ ''}'' =
        replicate (length n') CHR ''1'' @ CHR ''0'' # n' @ h' @ ''}''"
      using that by simp
    note split = append_Cons_unique[OF this]
    have "length n = length n'"
      using split arg_cong[of "replicate (length n) CHR ''1''" "replicate (length n') CHR ''1''" length] by auto
    moreover have "n @ h = n' @ h'"
      using split by auto
    ultimately show ?thesis
      using append_eq_append_conv by blast
  qed
  have brace: "\<exists>r. demo_jcs (JObj kvs) = CHR ''{'' # r" for kvs
    by (cases "JObj kvs" rule: demo_jcs.cases) simp_all
  show ?thesis
    unfolding codec_ok_def demo_env_def event_env.select_convs
    by (intro conjI[OF _ conjI] allI impI) (rule demo_unhex_hex, erule inj, rule brace)
qed

lemma unat_of_char_byte: "unat (of_char c :: byte) = of_char c"
proof -
  have "unat (of_nat (of_char c) :: byte) = (of_char c :: nat) mod 256"
    by (simp add: unat_of_nat)
  then show ?thesis
    by (simp only: of_nat_of_char) simp
qed

lemma char_of_str_bytes: "map (\<lambda>b. char_of (unat b)) (str_bytes s) = s"
  by (induction s) (simp_all add: unat_of_char_byte)

lemma demo_lines: "json_lines_ok demo_env"
proof -
  have "demo_from_json l = Some e" if "demo_to_json e = Some l" for e l
  proof -
    have "takeWhile (\<lambda>c. c \<noteq> CHR '':'') (demo_hex n @ CHR '':'' # r) = demo_hex n"
      "dropWhile (\<lambda>c. c \<noteq> CHR '':'') (demo_hex n @ CHR '':'' # r) = CHR '':'' # r" for n r
      using demo_hex_chars by (auto simp: takeWhile_append2 dropWhile_append2)
    then show ?thesis
      using that
      by (auto simp: demo_from_json_def demo_to_json_def char_of_str_bytes runtime_event_eq)
        (metis event_log_version.exhaust)+
  qed
  then show ?thesis
    unfolding json_lines_ok_def
    using demo_hex_chars by (auto simp: demo_env_def demo_to_json_def)
qed

section \<open>The register fixes the log\<close>

text \<open>
  C11. Two logs that replay to the same register value hold, event by event, the same measured bytes: the
  same events where they are V2, and V1 events whose name and payload joined by a colon are the same.
  The logs are equal when the events of one of them are V2, or when no event name holds a colon.
  The hash function is assumed to have no collision among the inputs of the two replays and never to
  produce the reset value.
\<close>

theorem replay_fixes_log:
  assumes "codec_ok E" "collision_free H (set (hashed E H xs) \<union> set (hashed E H ys))"
    and "replay_events E H xs None = replay_events E H ys None"
  shows "list_all2 same_measured xs ys \<and>
    ((\<forall>e\<in>set xs. rt_version e = V2) \<longrightarrow> xs = ys) \<and>
    ((\<forall>e\<in>set xs \<union> set ys. plain_name e) \<longrightarrow> xs = ys)"
proof -
  have all: "list_all2 same_measured xs ys"
    using replay_binds_preimages[OF assms(2) _ _ assms(3)]
    by (simp add: map_eq_list_all2 preimage_eq_measured[OF assms(1)])
  have "d = e" if "same_measured d e" "rt_version d = V2" for d e
    using that by (simp add: same_measured_def)
  then show ?thesis
    using all list_all2_same_eq[OF all] same_measured_plain by (intro conjI impI) (blast | metis UnI1 UnI2)+
qed

lemma collision_free_list:
  assumes "distinct (map (hash_fn H) (remdups xs))"
    and "list_all (\<lambda>x. length (hash_fn H x) = out_len H \<and> hash_fn H x \<noteq> zeros H) xs"
  shows "collision_free H (set xs)"
  using assms by (simp add: collision_free_def distinct_map list_all_iff)

definition demo_log :: "runtime_event list" where
  "demo_log =
    [\<lparr> rt_event = ''app-id'', rt_payload = [7], rt_version = V1 \<rparr>,
     \<lparr> rt_event = ''key-provider'', rt_payload = str_bytes ''a:b'', rt_version = V1 \<rparr>]"

definition demo_respelled :: "runtime_event list" where
  "demo_respelled =
    [\<lparr> rt_event = ''app-id'', rt_payload = [7], rt_version = V1 \<rparr>,
     \<lparr> rt_event = ''key-provider:a'', rt_payload = str_bytes ''b'', rt_version = V1 \<rparr>]"

lemma demo_logs_collision_free:
  "collision_free demo_hash (set (hashed demo_env demo_hash demo_log) \<union> set (hashed demo_env demo_hash demo_respelled))"
proof -
  let ?xs = "hashed demo_env demo_hash demo_log @ hashed demo_env demo_hash demo_respelled"
  have "distinct (map (hash_fn demo_hash) (remdups ?xs)) \<and>
      list_all (\<lambda>x. length (hash_fn demo_hash x) = out_len demo_hash \<and> hash_fn demo_hash x \<noteq> zeros demo_hash) ?xs"
    by code_simp
  then show ?thesis
    using collision_free_list[of demo_hash ?xs] by simp
qed

theorem replay_fixes_log_witness:
  "replay_events demo_env demo_hash demo_log None = replay_events demo_env demo_hash demo_respelled None \<and>
   list_all2 same_measured demo_log demo_respelled"
proof -
  have "replay_events demo_env demo_hash demo_log None = replay_events demo_env demo_hash demo_respelled None"
    by code_simp
  then show ?thesis
    using replay_fixes_log[OF demo_codec demo_logs_collision_free] by blast
qed

text \<open>
  C12. Validation accepts an event list exactly when every V2 runtime event in it carries a preimage that is
  the canonical representation of its own name and payload and hashes to its digest; the log a guest
  reads from its file passes once the preimages are filled in.
\<close>

theorem v2_preimages_bound:
  assumes "codec_ok E"
  shows "(validate_v2_preimages E es = Inr () \<longleftrightarrow>
      (\<forall>e\<in>set es. is_runtime_event e \<and> te_version e = V2 \<longrightarrow>
         (\<exists>h. te_preimage e = Some h \<and> te_digest e = tdx_digest E e \<and>
            hex_decode E h = Some (preimage E \<lparr> rt_event = te_event e, rt_payload = te_payload e, rt_version = V2 \<rparr>)))) \<and>
    ((\<forall>e\<in>set boot. \<not> is_runtime_event e) \<longrightarrow>
      validate_v2_preimages E (fill_v2_preimages E (boot @ map (tdx_of_runtime E) rs)) = Inr ())"
  using read_log_validates[OF assms]
  by (auto simp: validate_iff bound_event_def to_runtime_event_Some tdx_digest_def)

theorem v2_preimages_bound_witness:
  "validate_v2_preimages demo_env (fill_v2_preimages demo_env
     (tdx_event_new 0 4 [] [0] # map (tdx_of_runtime demo_env)
        [\<lparr> rt_event = ''app-id'', rt_payload = [7], rt_version = V2 \<rparr>])) = Inr () \<and>
   validate_v2_preimages demo_env (map (tdx_of_runtime demo_env)
        [\<lparr> rt_event = ''app-id'', rt_payload = [7], rt_version = V2 \<rparr>]) \<noteq> Inr ()"
proof -
  have "\<forall>e\<in>set [tdx_event_new 0 4 [] [0]]. \<not> is_runtime_event e"
    by (simp add: tdx_event_new_def is_runtime_event_def DSTACK_RUNTIME_EVENT_TYPE_def)
  then show ?thesis
    using v2_preimages_bound[OF demo_codec, of _ "[tdx_event_new 0 4 [] [0]]"
        "[\<lparr> rt_event = ''app-id'', rt_payload = [7], rt_version = V2 \<rparr>]"]
      v2_preimages_bound[OF demo_codec, of "map (tdx_of_runtime demo_env)
        [\<lparr> rt_event = ''app-id'', rt_payload = [7], rt_version = V2 \<rparr>]" "[]"]
    by simp
qed

section \<open>The log file reads back\<close>

text \<open>Emissions in order; an emission leaves no torn line when each of its writes completes or, for the
  first, fails before it wrote anything.\<close>

fun emit_all :: "event_env \<Rightarrow> (append_io \<times> runtime_event) list \<Rightarrow> string option \<Rightarrow> string option" where
  "emit_all E [] file = file"
| "emit_all E ((io, e) # xs) file = emit_all E xs (fst (emit E io e file))"

definition no_torn_line :: "append_io \<Rightarrow> bool" where
  "no_torn_line io = (if io_line io = Written then io_newline io = Written else io_line io = Write_failed 0)"

definition appended :: "event_env \<Rightarrow> append_io \<times> runtime_event \<Rightarrow> bool" where
  "appended E x = (snd (emit E (fst x) (snd x) None) = Inr ())"

lemma emit_result: "snd (emit E io e file) = snd (emit E io e file')"
  by (simp add: emit_def Let_def split: option.splits)

lemma emit_file:
  assumes "no_torn_line io" "file = None \<and> es = [] \<or> file = Some (log_of E es)"
  shows "if appended E (io, e) then event_to_json E e \<noteq> None \<and> fst (emit E io e file) = Some (log_of E (es @ [e]))
    else fst (emit E io e file) = file \<or> file = None \<and> fst (emit E io e file) = Some []"
proof (cases "emit E io e file")
  case (Pair file' r)
  then have r: "appended E (io, e) \<longleftrightarrow> r = Inr ()"
    using emit_result[of E io e None "file"] by (simp add: appended_def)
  show ?thesis
  proof (cases r)
    case (Inl err)
    have "io_line io = Write_failed 0 \<or> err \<noteq> Emit_write"
      using assms(1) Pair Inl by (auto simp: no_torn_line_def emit_def Let_def split: option.splits if_splits)
    then show ?thesis
      using emit_unchanged[of E io e "file" file' err] Pair Inl r by simp
  next
    case (Inr u)
    then show ?thesis
      using emit_appends[of E io e "file" file'] Pair r assms(2) by auto
  qed
qed

text \<open>
  C13. After any sequence of emissions of which none tore a line, the log file reads back as exactly the
  events whose emission succeeded, in order; failed emissions leave no trace in it.
\<close>

theorem emitted_log_reads_back:
  assumes "json_lines_ok E" "\<forall>x\<in>set xs. no_torn_line (fst x)"
  shows "read_all E (log_text (emit_all E xs None)) = Inr (map snd (filter (appended E) xs))"
proof -
  have "\<exists>es'. es' = es @ map snd (filter (appended E) xs) \<and> (\<forall>e\<in>set es'. event_to_json E e \<noteq> None) \<and>
      (emit_all E xs f = None \<and> es' = [] \<or> emit_all E xs f = Some (log_of E es'))"
    if "f = None \<and> es = [] \<or> f = Some (log_of E es)" "\<forall>e\<in>set es. event_to_json E e \<noteq> None" for f es
    using that assms(2)
  proof (induction xs arbitrary: f es)
    case (Cons x xs)
    obtain io e where x: "x = (io, e)"
      by (cases x)
    let ?f = "fst (emit E io e f)" and ?es = "es @ map snd (filter (appended E) [x])"
    have step: "?f = None \<and> ?es = [] \<or> ?f = Some (log_of E ?es)"
      "\<forall>e\<in>set ?es. event_to_json E e \<noteq> None"
      using emit_file[of io f es E e] Cons.prems by (auto simp: x split: if_splits)
    then show ?case
      using Cons.IH[OF step] Cons.prems(3) by (cases "appended E (io, e)") (simp_all add: x)
  qed simp
  from this[of None "[]"] show ?thesis
    using read_log_of[OF assms(1)] by (auto simp: log_text_def read_all_def)
qed

definition demo_io :: append_io where
  "demo_io = \<lparr> io_dir_ok = True, io_open_ok = True, io_line = Written, io_newline = Written \<rparr>"

theorem emitted_log_reads_back_witness:
  "read_all demo_env (log_text (emit_all demo_env
     [(demo_io, demo_log ! 0), (demo_io\<lparr> io_open_ok := False \<rparr>, demo_log ! 0), (demo_io, demo_log ! 1)] None)) =
   Inr demo_log"
proof -
  have "filter (appended demo_env)
      [(demo_io, demo_log ! 0), (demo_io\<lparr> io_open_ok := False \<rparr>, demo_log ! 0), (demo_io, demo_log ! 1)] =
      [(demo_io, demo_log ! 0), (demo_io, demo_log ! 1)]"
    by (simp add: appended_def emit_def demo_io_def demo_env_def demo_to_json_def)
  then show ?thesis
    using emitted_log_reads_back[OF demo_lines, of
        "[(demo_io, demo_log ! 0), (demo_io\<lparr> io_open_ok := False \<rparr>, demo_log ! 0), (demo_io, demo_log ! 1)]"]
    by (simp add: no_torn_line_def demo_io_def) (simp add: demo_log_def)
qed

end
